theory Spec2Isabelle
  imports Complex_Main "HOL-Library.Word"
begin

unbundle bit_operations_syntax

section \<open>Data model\<close>

text \<open>
  The repository holds two Arduino sketches for the same movie format:
  \<^item> \<^verbatim>\<open>wifi-videoplayer.ino\<close>: the player with the web uploader. Its functions keep
    their names here (\<open>readHeaderFromFile\<close>, \<open>fpsMilliToMs\<close>,
    \<open>openMovieFileAndReadHeader\<close>, \<open>handleUpload\<close>, \<open>loop\<close>).
  \<^item> the plain player (the second sketch, without the uploader). Its functions are
    \<open>readHeader\<close>, \<open>setup_basic\<close> and \<open>loop_basic\<close>.
  Bytes are 8-bit words; \<open>uint16_t\<close> and \<open>uint32_t\<close> are 16-bit and 32-bit words, so
  that every wrap-around of the C arithmetic is the wrap-around of the word type.
\<close>

type_synonym byte = "8 word"

text \<open>
  \<^verbatim>\<open>struct __attribute__((packed)) MovieHeader\<close>: 32 bytes, no padding.
\<close>

record MovieHeader =
  magic :: "byte list"
  width :: "16 word"
  height :: "16 word"
  fps_milli :: "32 word"
  frame_count :: "32 word"
  flags :: byte
  reserved :: "byte list"

text \<open>\<^verbatim>\<open>MovieHeader hdr{}\<close>: the zero-initialised global.\<close>

definition hdr_zero :: MovieHeader where
  "hdr_zero = \<lparr>magic = replicate 8 0, width = 0, height = 0, fps_milli = 0,
     frame_count = 0, flags = 0, reserved = replicate 11 0\<rparr>"

text \<open>
  The memory image of the packed struct on the little-endian target, in both
  directions. The sketches fill the struct by reading file bytes over it
  (\<^verbatim>\<open>file.read((uint8_t*)&outHdr, sizeof(outHdr))\<close>).
\<close>

definition le16 :: "byte list \<Rightarrow> 16 word" where
  "le16 b = ucast (b ! 0) OR push_bit 8 (ucast (b ! 1))"

definition le32 :: "byte list \<Rightarrow> 32 word" where
  "le32 b = ucast (b ! 0) OR push_bit 8 (ucast (b ! 1))
     OR push_bit 16 (ucast (b ! 2)) OR push_bit 24 (ucast (b ! 3))"

definition bytes16 :: "16 word \<Rightarrow> byte list" where
  "bytes16 w = [ucast w, ucast (drop_bit 8 w)]"

definition bytes32 :: "32 word \<Rightarrow> byte list" where
  "bytes32 w = [ucast w, ucast (drop_bit 8 w), ucast (drop_bit 16 w), ucast (drop_bit 24 w)]"

definition fit :: "nat \<Rightarrow> byte list \<Rightarrow> byte list" where
  "fit n xs = take n (xs @ replicate n 0)"

definition sizeof_MovieHeader :: nat where
  "sizeof_MovieHeader = 32"

definition headerBytes :: "MovieHeader \<Rightarrow> byte list" where
  "headerBytes h = fit 8 (magic h) @ bytes16 (width h) @ bytes16 (height h)
     @ bytes32 (fps_milli h) @ bytes32 (frame_count h) @ [flags h] @ fit 11 (reserved h)"

definition parseHeader :: "byte list \<Rightarrow> MovieHeader" where
  "parseHeader b = \<lparr>magic = take 8 b,
     width = le16 (take 2 (drop 8 b)),
     height = le16 (take 2 (drop 10 b)),
     fps_milli = le32 (take 4 (drop 12 b)),
     frame_count = le32 (take 4 (drop 16 b)),
     flags = b ! 20,
     reserved = take 11 (drop 21 b)\<rparr>"

text \<open>
  Writing \<open>data\<close> at the start of a memory area: what a read of \<open>length data\<close>
  bytes into a buffer leaves there.
\<close>

definition overwrite :: "byte list \<Rightarrow> byte list \<Rightarrow> byte list" where
  "overwrite data mem = data @ drop (length data) mem"

subsection \<open>The storage collaborator\<close>

text \<open>
  An open \<open>File\<close> is the bytes of the file and a cursor; a closed or invalid handle
  (\<^verbatim>\<open>!file\<close>) is \<open>None\<close>. \<open>fread\<close> is read-exact-or-short: it returns the bytes
  between the cursor and the end, at most \<open>n\<close> of them, and advances the cursor by
  what it returned. \<open>fseek\<close> sets the cursor to an absolute offset. The sketches
  only seek to 0 or, after 32 header bytes have been read, to 32.
\<close>

record File =
  content :: "byte list"
  pos :: nat

definition fread :: "File \<Rightarrow> nat \<Rightarrow> byte list \<times> File" where
  "fread fl n = (let data = take n (drop (pos fl) (content fl))
     in (data, fl\<lparr>pos := pos fl + length data\<rparr>))"

definition fseek :: "File \<Rightarrow> nat \<Rightarrow> File" where
  "fseek fl off = fl\<lparr>pos := off\<rparr>"

text \<open>\<^verbatim>\<open>LittleFS.open(name, "r")\<close> on a file system holding at most the movie file.\<close>

definition open_r :: "byte list option \<Rightarrow> File option" where
  "open_r fs = map_option (\<lambda>bs. \<lparr>content = bs, pos = 0\<rparr>) fs"

subsection \<open>The magic check\<close>

text \<open>
  C's \<open>strncmp\<close>: compares at most \<open>n\<close> characters and stops after a NUL. A
  string is the list of its characters, the end of the list being its NUL.
\<close>

definition chr0 :: "byte list \<Rightarrow> byte" where
  "chr0 s = (case s of [] \<Rightarrow> 0 | c # _ \<Rightarrow> c)"

fun strncmp :: "byte list \<Rightarrow> byte list \<Rightarrow> nat \<Rightarrow> int" where
  "strncmp s1 s2 0 = 0"
| "strncmp s1 s2 (Suc n) =
     (if chr0 s1 \<noteq> chr0 s2 then uint (chr0 s1) - uint (chr0 s2)
      else if chr0 s1 = 0 then 0
      else strncmp (tl s1) (tl s2) n)"

definition SSD1306V1 :: "byte list" where
  "SSD1306V1 = map of_char ''SSD1306V1''"

section \<open>The player with the uploader\<close>

subsection \<open>Frame delay\<close>

definition fpsMilliToMs :: "32 word \<Rightarrow> 32 word" where
  "fpsMilliToMs fps = (if fps = 0 then 66
     else ucast (((1000000 :: 64 word) + ucast (fps div 2)) div ucast fps))"

subsection \<open>Session state\<close>

text \<open>
  The globals of a sketch: \<open>f\<close>, \<open>hdr\<close>, \<open>frameSize\<close>, \<open>frameDelayMs\<close>,
  \<open>hasHeader\<close>, and the \<open>static lastMs\<close> of \<open>loop\<close>. The uploader sketch adds
  the file system (the bytes of \<^verbatim>\<open>/movie.bin\<close>, \<open>None\<close> when it does not exist) and
  the \<open>static uploadFile\<close> of \<open>handleUpload\<close> (open for writing or not; what it
  writes goes to the file system).
\<close>

record session =
  f :: "File option"
  hdr :: MovieHeader
  frameSize :: "32 word"
  frameDelayMs :: "32 word"
  hasHeader :: bool
  lastMs :: "32 word"

record player = session +
  fs :: "byte list option"
  uploadFile :: bool

text \<open>The globals as the sketch initialises them, on a file system \<open>disk\<close>.\<close>

definition boot :: "byte list option \<Rightarrow> player" where
  "boot disk = \<lparr>f = None, hdr = hdr_zero, frameSize = 0, frameDelayMs = 66,
     hasHeader = False, lastMs = 0, fs = disk, uploadFile = False\<rparr>"

subsection \<open>The Arduino \<open>File\<close> wrapper\<close>

text \<open>
  \<open>File::read\<close> returns \<open>-1\<close> on an invalid handle and the number of bytes read
  otherwise; the sketches keep the result in an \<open>int\<close> or compare it as
  \<open>size_t\<close>. \<open>File::seek\<close> and \<open>File::close\<close> do nothing on an invalid handle.
\<close>

definition File_read :: "File option \<Rightarrow> nat \<Rightarrow> byte list \<times> 32 word \<times> File option" where
  "File_read h n = (case h of
       None \<Rightarrow> ([], - 1, None)
     | Some fl \<Rightarrow> (let (data, fl') = fread fl n in (data, of_nat (length data), Some fl')))"

definition File_seek :: "File option \<Rightarrow> nat \<Rightarrow> File option" where
  "File_seek h off = map_option (\<lambda>fl. fseek fl off) h"

definition safeCloseFile :: "File option \<Rightarrow> bool \<times> File option" where
  "safeCloseFile file = (if file \<noteq> None then (True, None) else (False, file))"

subsection \<open>Opening the movie\<close>

text \<open>
  \<open>readHeaderFromFile\<close> returns \<open>Some outHdr\<close> where the C function returns true and
  \<open>None\<close> where it returns false (its caller reads \<open>outHdr\<close> only after true), and
  the handle with its cursor moved.
\<close>

definition readHeaderFromFile :: "File option \<Rightarrow> MovieHeader option \<times> File option" where
  "readHeaderFromFile file =
     (if file = None then (None, file)
      else
        (let file1 = File_seek file 0;
             (data, r, file2) = File_read file1 sizeof_MovieHeader;
             outHdr = parseHeader data
         in if r \<noteq> of_nat sizeof_MovieHeader then (None, file2)
            else if strncmp (magic outHdr) SSD1306V1 8 \<noteq> 0 then (None, file2)
            else if height outHdr mod 8 \<noteq> 0 then (None, file2)
            else (Some outHdr, file2)))"

definition openMovieFileAndReadHeader :: "player \<Rightarrow> bool \<times> player" where
  "openMovieFileAndReadHeader s =
     (let s1 = (if f s \<noteq> None then s\<lparr>f := snd (safeCloseFile (f s))\<rparr> else s);
          s2 = s1\<lparr>f := open_r (fs s1)\<rparr>
      in if f s2 = None then (False, s2\<lparr>hasHeader := False\<rparr>)
         else
           (case readHeaderFromFile (f s2) of
              (None, file) \<Rightarrow>
                (let h = (hdr s2)\<lparr>width := 128, height := 64, fps_milli := 15000,
                           frame_count := 0, flags := 0\<rparr>
                 in (True, s2\<lparr>f := File_seek file 0, hdr := h, hasHeader := False,
                       frameSize := ucast (width h) * ucast (height h div 8),
                       frameDelayMs := 1000 div 15\<rparr>))
            | (Some tmp, file) \<Rightarrow>
                (True, s2\<lparr>f := File_seek file sizeof_MovieHeader, hdr := tmp, hasHeader := True,
                   frameSize := ucast (width tmp) * ucast (height tmp div 8),
                   frameDelayMs := fpsMilliToMs (fps_milli tmp)\<rparr>)))"

text \<open>
  \<open>setup\<close> of the uploader sketch: it never returns when the file system cannot
  be mounted (\<open>None\<close>); otherwise it ends by trying to open the movie.
\<close>

definition setup_player :: "bool \<Rightarrow> byte list option \<Rightarrow> player option" where
  "setup_player mount_ok disk =
     (if \<not> mount_ok then None else Some (snd (openMovieFileAndReadHeader (boot disk))))"

subsection \<open>The rendering sink and the trace of a tick\<close>

text \<open>
  What a tick does to its collaborators, in order: \<open>Read n k\<close> is a read of \<open>n\<close>
  requested bytes that returned \<open>k\<close>; \<open>Seek off\<close> an absolute seek;
  \<open>DrawTile x y cnt bytes\<close> a call of the sink's tile-write primitive
  \<open>drawTile(x, y, cnt, ptr)\<close>, which takes \<open>8 * cnt\<close> bytes from \<open>ptr\<close>.
\<close>

datatype effect = Read nat nat | Seek nat | DrawTile byte byte byte "byte list"

text \<open>
  The drawing loop, \<^verbatim>\<open>for (uint8_t page = 0; page < pages; ++page)\<close>, with \<open>pages\<close>
  and \<open>tilesPerRow\<close> truncated to \<open>uint8_t\<close> as the sketches declare them.
\<close>

definition drawFrame :: "MovieHeader \<Rightarrow> byte list \<Rightarrow> effect list" where
  "drawFrame h buf =
     (let pages = (ucast (height h div 8) :: byte);
          tilesPerRow = (ucast (width h div 8) :: byte)
      in map (\<lambda>page.
            (let rowOff = (of_nat page :: 32 word) * ucast (width h)
             in DrawTile 0 (of_nat page) tilesPerRow
                  (take (8 * unat tilesPerRow) (drop (unat rowOff) buf))))
          [0 ..< unat pages])"

text \<open>The bytes handed to the sink, and the number of tiles written.\<close>

fun tile_bytes :: "effect list \<Rightarrow> byte list" where
  "tile_bytes [] = []"
| "tile_bytes (DrawTile x y cnt bs # es) = bs @ tile_bytes es"
| "tile_bytes (e # es) = tile_bytes es"

fun tiles_written :: "effect list \<Rightarrow> nat" where
  "tiles_written [] = 0"
| "tiles_written (DrawTile x y cnt bs # es) = unat cnt + tiles_written es"
| "tiles_written (e # es) = tiles_written es"

fun is_draw :: "effect \<Rightarrow> bool" where
  "is_draw (DrawTile x y cnt bs) = True"
| "is_draw e = False"

subsection \<open>The upload handler\<close>

datatype HTTPUploadStatus =
  UPLOAD_FILE_START | UPLOAD_FILE_WRITE | UPLOAD_FILE_END | UPLOAD_FILE_ABORTED

record HTTPUpload =
  status :: HTTPUploadStatus
  buf :: "byte list"
  currentSize :: nat

text \<open>
  \<open>handleUpload wr_ok upload s\<close>: one call of the handler. \<open>wr_ok\<close> says whether
  \<^verbatim>\<open>LittleFS.open(UPLOAD_FILENAME, "w")\<close> succeeds, should the call reach it.
  \<open>LittleFS.remove\<close> and the writes to an open upload file are taken to succeed;
  the handler does not look at their results.
\<close>

definition handleUpload :: "bool \<Rightarrow> HTTPUpload \<Rightarrow> player \<Rightarrow> player" where
  "handleUpload wr_ok upload s =
     (case status upload of
        UPLOAD_FILE_START \<Rightarrow>
          (let s1 = (if f s \<noteq> None then s\<lparr>f := snd (safeCloseFile (f s))\<rparr> else s);
               s2 = (if fs s1 \<noteq> None then s1\<lparr>fs := None\<rparr> else s1)
           in if wr_ok then s2\<lparr>fs := Some [], uploadFile := True\<rparr>
              else s2\<lparr>uploadFile := False\<rparr>)
      | UPLOAD_FILE_WRITE \<Rightarrow>
          (if uploadFile s
           then s\<lparr>fs := Some ((case fs s of None \<Rightarrow> [] | Some bs \<Rightarrow> bs)
                    @ take (currentSize upload) (buf upload))\<rparr>
           else s)
      | UPLOAD_FILE_END \<Rightarrow>
          (let s1 = (if uploadFile s then s\<lparr>uploadFile := False\<rparr> else s);
               (ok, s2) = openMovieFileAndReadHeader s1
           in if \<not> ok then
                (let s3 = s2\<lparr>f := open_r (fs s2)\<rparr>
                 in if f s3 \<noteq> None then
                      (let h = (hdr s3)\<lparr>width := 128, height := 64, fps_milli := 15000,
                                 flags := 0\<rparr>
                       in s3\<lparr>hdr := h,
                            frameSize := ucast (width h) * ucast (height h div 8),
                            frameDelayMs := 1000 div 15, hasHeader := False\<rparr>)
                    else s3)
              else s2)
      | UPLOAD_FILE_ABORTED \<Rightarrow> s)"

text \<open>\<open>server.handleClient()\<close>: the handler calls the web server makes in one turn.\<close>

fun handleClient :: "(bool \<times> HTTPUpload) list \<Rightarrow> player \<Rightarrow> player" where
  "handleClient [] s = s"
| "handleClient ((wr_ok, upload) # us) s = handleClient us (handleUpload wr_ok upload s)"

subsection \<open>The scheduler tick\<close>

text \<open>
  \<open>playback junk now s\<close> is the body of \<open>loop\<close> after \<open>server.handleClient()\<close>:
  \<open>now\<close> is what \<open>millis()\<close> returns and \<open>junk\<close> what the freshly allocated,
  uninitialised frame buffer holds (the allocation is taken to succeed). It
  returns the trace of the tick and the new state.
\<close>

definition playback :: "byte list \<Rightarrow> 32 word \<Rightarrow> player \<Rightarrow> effect list \<times> player" where
  "playback junk now s =
     (if f s = None then ([], s)
      else if now - lastMs s < frameDelayMs s then ([], s)
      else
        (let s1 = s\<lparr>lastMs := now\<rparr>;
             n = unat (frameSize s1);
             buf0 = fit n junk;
             (d1, r1, f1) = File_read (f s1) n;
             buf1 = overwrite d1 buf0
         in if r1 <s frameSize s1 then
              (let off = (if hasHeader s1 then sizeof_MovieHeader else 0);
                   f2 = File_seek f1 off;
                   (d2, r2, f3) = File_read f2 n;
                   buf2 = overwrite d2 buf1
               in if r2 <s frameSize s1
                  then ([Read n (length d1), Seek off, Read n (length d2)], s1\<lparr>f := f3\<rparr>)
                  else ([Read n (length d1), Seek off, Read n (length d2)]
                          @ drawFrame (hdr s1) buf2, s1\<lparr>f := f3\<rparr>))
            else ([Read n (length d1)] @ drawFrame (hdr s1) buf1, s1\<lparr>f := f1\<rparr>)))"

definition loop ::
  "(bool \<times> HTTPUpload) list \<Rightarrow> byte list \<Rightarrow> 32 word \<Rightarrow> player \<Rightarrow> effect list \<times> player" where
  "loop uploads junk now s = playback junk now (handleClient uploads s)"

text \<open>Consecutive calls of \<open>loop\<close>, their traces concatenated.\<close>

fun run :: "((bool \<times> HTTPUpload) list \<times> byte list \<times> 32 word) list \<Rightarrow> player
    \<Rightarrow> effect list \<times> player" where
  "run [] s = ([], s)"
| "run ((uploads, junk, now) # ts) s =
     (let (tr, s1) = loop uploads junk now s;
          (tr', s2) = run ts s1
      in (tr @ tr', s2))"

section \<open>The plain player\<close>

text \<open>
  \<open>readHeader\<close> reads the header straight into the global \<open>hdr\<close> and sets the
  playback parameters if it is valid.
\<close>

definition readHeader :: "session \<Rightarrow> bool \<times> session" where
  "readHeader s =
     (if f s = None then (False, s)
      else
        (let (data, r, file1) = File_read (f s) sizeof_MovieHeader;
             s1 = s\<lparr>f := file1, hdr := parseHeader (overwrite data (headerBytes (hdr s)))\<rparr>
         in if r \<noteq> of_nat sizeof_MovieHeader then (False, s1)
            else if strncmp (magic (hdr s1)) SSD1306V1 8 \<noteq> 0 then (False, s1)
            else if height (hdr s1) mod 8 \<noteq> 0 then (False, s1)
            else
              (let s2 = s1\<lparr>frameSize := ucast (width (hdr s1)) * ucast (height (hdr s1) div 8)\<rparr>;
                   s3 = (if fps_milli (hdr s2) = 0
                         then s2\<lparr>hdr := (hdr s2)\<lparr>fps_milli := 15000\<rparr>\<rparr> else s2);
                   s4 = s3\<lparr>frameDelayMs := 1000000 div fps_milli (hdr s3)\<rparr>;
                   s5 = (if frameDelayMs s4 = 0 then s4\<lparr>frameDelayMs := 1\<rparr> else s4)
               in (True, s5))))"

definition boot_basic :: session where
  "boot_basic = \<lparr>f = None, hdr = hdr_zero, frameSize = 0, frameDelayMs = 66,
     hasHeader = False, lastMs = 0\<rparr>"

text \<open>
  \<open>setup\<close> of the plain player never returns when the file system cannot be
  mounted or the movie cannot be opened (\<open>None\<close>).
\<close>

definition setup_basic :: "bool \<Rightarrow> byte list option \<Rightarrow> session option" where
  "setup_basic mount_ok disk =
     (if \<not> mount_ok then None
      else
        (let s0 = boot_basic\<lparr>f := open_r disk\<rparr>
         in if f s0 = None then None
            else
              (let (ok, s1) = readHeader s0;
                   s2 = s1\<lparr>hasHeader := ok\<rparr>
               in if \<not> hasHeader s2 then
                    Some (s2\<lparr>f := File_seek (f s2) 0,
                      hdr := (hdr s2)\<lparr>width := 128, height := 64, fps_milli := 15000,
                               frame_count := 0, flags := 0\<rparr>,
                      frameSize := 128 * (64 div 8),
                      frameDelayMs := 1000 div 15\<rparr>)
                  else Some s2)))"

definition loop_basic :: "byte list \<Rightarrow> 32 word \<Rightarrow> session \<Rightarrow> effect list \<times> session" where
  "loop_basic junk now s =
     (if now - lastMs s < frameDelayMs s then ([], s)
      else
        (let s1 = s\<lparr>lastMs := now\<rparr>;
             n = unat (frameSize s1);
             buf0 = fit n junk;
             (d1, r1, f1) = File_read (f s1) n;
             buf1 = overwrite d1 buf0
         in if r1 <s frameSize s1 then
              (let off = (if hasHeader s1 then sizeof_MovieHeader else 0);
                   f2 = File_seek f1 off;
                   (d2, r2, f3) = File_read f2 n;
                   buf2 = overwrite d2 buf1
               in ([Read n (length d1), Seek off, Read n (length d2)]
                     @ drawFrame (hdr s1) buf2, s1\<lparr>f := f3\<rparr>))
            else ([Read n (length d1)] @ drawFrame (hdr s1) buf1, s1\<lparr>f := f1\<rparr>)))"

fun run_basic :: "(byte list \<times> 32 word) list \<Rightarrow> session \<Rightarrow> effect list \<times> session" where
  "run_basic [] s = ([], s)"
| "run_basic ((junk, now) # ts) s =
     (let (tr, s1) = loop_basic junk now s;
          (tr', s2) = run_basic ts s1
      in (tr @ tr', s2))"

section \<open>The frame delay of the specification\<close>

text \<open>
  The specification's formula, in its words: \<open>round(1_000_000 / fps_milli)\<close>,
  \<open>fps_milli\<close> taken as 15000 when it is zero, clamped to a minimum of 1 ms.
\<close>

definition spec_frameDelayMs :: "nat \<Rightarrow> int" where
  "spec_frameDelayMs fps =
     max 1 (round (1000000 / real (if fps = 0 then 15000 else fps)))"

section \<open>Notions used in the statements\<close>

text \<open>
  The relation the sketches keep between the frame size and the dimensions
  (\<^verbatim>\<open>uint32_t frameSize = 0; // width * (height/8)\<close>).
\<close>

definition geometry_ok :: "'a session_scheme \<Rightarrow> bool" where
  "geometry_ok s = (frameSize s = ucast (width (hdr s)) * ucast (height (hdr s) div 8))"

text \<open>
  Where in the file the frame of a tick starts: at the cursor when a whole frame
  lies ahead of it, otherwise at the first-frame offset, to which the tick seeks
  back.
\<close>

definition first_frame_offset :: "bool \<Rightarrow> nat" where
  "first_frame_offset hh = (if hh then sizeof_MovieHeader else 0)"

definition frame_start :: "File \<Rightarrow> nat \<Rightarrow> bool \<Rightarrow> nat" where
  "frame_start fl n hh =
     (if n \<le> length (content fl) - pos fl then pos fl else first_frame_offset hh)"

text \<open>The stream \<open>bs\<close> with another value in the header's \<open>frame_count\<close> field.\<close>

definition set_frame_count :: "32 word \<Rightarrow> byte list \<Rightarrow> byte list" where
  "set_frame_count fc bs = take 16 bs @ bytes32 fc @ drop 20 bs"

text \<open>Calls of \<open>loop\<close> in which the web server has nothing to deliver.\<close>

definition ticks ::
  "(byte list \<times> 32 word) list \<Rightarrow> ((bool \<times> HTTPUpload) list \<times> byte list \<times> 32 word) list" where
  "ticks ts = map (\<lambda>(junk, now). ([], junk, now)) ts"

text \<open>Calls of \<open>loop\<close> in which no upload ends.\<close>

definition no_upload_end ::
  "((bool \<times> HTTPUpload) list \<times> byte list \<times> 32 word) list \<Rightarrow> bool" where
  "no_upload_end steps =
     list_all (\<lambda>(uploads, junk, now).
        list_all (\<lambda>(wr_ok, upload). status upload \<noteq> UPLOAD_FILE_END) uploads) steps"

text \<open>
  The stream of the specification's scenario: a 128x64 header at 30 fps with
  \<open>frame_count = 2\<close> and \<open>flags = 1\<close>, followed by two frames; and a small stream
  of 8x8 frames at 15 fps.
\<close>

definition scenario_hdr :: MovieHeader where
  "scenario_hdr = \<lparr>magic = take 8 SSD1306V1, width = 128, height = 64, fps_milli = 30000,
     frame_count = 2, flags = 1, reserved = replicate 11 0\<rparr>"

definition scenario_file :: "byte list \<Rightarrow> byte list \<Rightarrow> byte list" where
  "scenario_file fr0 fr1 = headerBytes scenario_hdr @ fr0 @ fr1"

definition tiny_hdr :: MovieHeader where
  "tiny_hdr = \<lparr>magic = take 8 SSD1306V1, width = 8, height = 8, fps_milli = 15000,
     frame_count = 1, flags = 0, reserved = replicate 11 0\<rparr>"

definition tiny_file :: "byte list \<Rightarrow> byte list" where
  "tiny_file frames = headerBytes tiny_hdr @ frames"

text \<open>
  The uploader sketch after \<open>setup\<close>, and the plain player after \<open>setup\<close>, on
  the small stream.
\<close>

definition tiny_player :: "byte list \<Rightarrow> player" where
  "tiny_player frames = snd (openMovieFileAndReadHeader (boot (Some (tiny_file frames))))"

definition tiny_session :: "byte list \<Rightarrow> session" where
  "tiny_session frames = the (setup_basic True (Some (tiny_file frames)))"

text \<open>
  Legacy mode on the file \<open>bs\<close>: the default dimensions and rate, no declared frame
  count, no header, and the cursor at byte 0.
\<close>

definition legacy_mode :: "byte list \<Rightarrow> 'a session_scheme \<Rightarrow> bool" where
  "legacy_mode bs s =
     (width (hdr s) = 128 \<and> height (hdr s) = 64 \<and> fps_milli (hdr s) = 15000
      \<and> frame_count (hdr s) = 0 \<and> frameSize s = 1024 \<and> frameDelayMs s = 66
      \<and> \<not> hasHeader s \<and> f s = Some \<lparr>content = bs, pos = 0\<rparr>)"

text \<open>Two streams with an empty picture: 128x0 and 0x64, no frame bytes.\<close>

definition flat_hdr :: MovieHeader where
  "flat_hdr = \<lparr>magic = take 8 SSD1306V1, width = 128, height = 0, fps_milli = 15000,
     frame_count = 1, flags = 0, reserved = replicate 11 0\<rparr>"

definition narrow_hdr :: MovieHeader where
  "narrow_hdr = \<lparr>magic = take 8 SSD1306V1, width = 0, height = 64, fps_milli = 15000,
     frame_count = 1, flags = 0, reserved = replicate 11 0\<rparr>"

text \<open>
  Two sessions on headered streams that agree on all that playback reads: the
  dimensions, the frame size, the delay, the last-tick time, the cursor, and the
  bytes of the file from the first frame on.
\<close>

definition same_playback :: "'a session_scheme \<Rightarrow> 'b session_scheme \<Rightarrow> bool" where
  "same_playback s s' =
     ((case (f s, f s') of
         (Some fl, Some fl') \<Rightarrow>
           pos fl = pos fl' \<and> 32 \<le> pos fl \<and> length (content fl) = length (content fl')
           \<and> drop 32 (content fl) = drop 32 (content fl')
       | _ \<Rightarrow> False)
      \<and> hasHeader s \<and> hasHeader s' \<and> frameSize s = frameSize s'
      \<and> frameDelayMs s = frameDelayMs s' \<and> lastMs s = lastMs s'
      \<and> width (hdr s) = width (hdr s') \<and> height (hdr s) = height (hdr s'))"

section \<open>Verified properties\<close>

text \<open>
  From here on: lemmas about the model, and for each of the properties C1 to C10
  a section with its theorem.
\<close>

section \<open>Machine arithmetic\<close>

lemma unat_of_nat_32: "k < 2 ^ 32 \<Longrightarrow> unat (of_nat k :: 32 word) = k"
  by (simp add: unat_of_nat)

lemma of_nat_eq_32:
  assumes "a < 2 ^ 32" "b < 2 ^ 32"
  shows "((of_nat a :: 32 word) = of_nat b) = (a = b)"
  by (metis assms unat_of_nat_32)

lemma sint_small:
  fixes a :: "32 word"
  assumes "unat a < 2 ^ 31"
  shows "sint a = uint a"
proof -
  have "uint a = int (unat a)" by simp
  also have "\<dots> < int (2 ^ 31)" using assms by (simp only: of_nat_less_iff)
  finally have "uint a < 2 ^ 31" by simp
  have "- (2 ^ 31) \<le> uint a"
    by (rule order_trans[of _ 0]) simp_all
  moreover note \<open>uint a < 2 ^ 31\<close>
  ultimately have "signed_take_bit 31 (uint a) = uint a"
    by (rule signed_take_bit_int_eq_self)
  then show ?thesis by (simp add: sint_uint)
qed

lemma sless_small:
  fixes a b :: "32 word"
  assumes "unat a < 2 ^ 31" "unat b < 2 ^ 31"
  shows "(a <s b) = (unat a < unat b)"
proof -
  have "(a <s b) = (uint a < uint b)"
    by (simp only: word_sless_alt sint_small[OF assms(1)] sint_small[OF assms(2)])
  also have "\<dots> = (a < b)" by (simp only: word_less_def)
  also have "\<dots> = (unat a < unat b)" by (simp only: word_less_nat_alt)
  finally show ?thesis .
qed

lemma unat_ucast_16_32: "unat (ucast (w :: 16 word) :: 32 word) = unat w"
proof -
  have "unat w < 2 ^ 16" using unsigned_less[of w] by simp
  then have "unat w < 2 ^ 32" by simp
  then show ?thesis by (simp add: unsigned_ucast_eq take_bit_nat_eq_self)
qed

lemma frame_mult_lt:
  fixes w h :: "16 word"
  shows "unat w * (unat h div 8) < 2 ^ 29"
proof -
  have w: "unat w < 2 ^ 16" using unsigned_less[of w] by simp
  have h: "unat h < 2 ^ 16" using unsigned_less[of h] by simp
  then have h8: "unat h div 8 < 2 ^ 13" by simp
  have "unat w * (unat h div 8) < 2 ^ 16 * 2 ^ 13"
    using w h8 by (rule mult_strict_mono') simp_all
  then show ?thesis by simp
qed

lemma unat_frame_mult:
  fixes w h :: "16 word"
  shows "unat ((ucast w :: 32 word) * ucast (h div 8)) = unat w * (unat h div 8)"
proof -
  have a: "unat (ucast (h div 8) :: 32 word) = unat h div 8"
    by (simp only: unat_ucast_16_32 unat_div) simp
  have b: "unat (ucast w :: 32 word) = unat w" by (rule unat_ucast_16_32)
  have "unat w * (unat h div 8) < 2 ^ 32"
    using frame_mult_lt[of w h] by simp
  then have "unat (ucast w :: 32 word) * unat (ucast (h div 8) :: 32 word) < 2 ^ LENGTH(32)"
    by (simp only: a b) simp
  then have "unat ((ucast w :: 32 word) * ucast (h div 8))
      = unat (ucast w :: 32 word) * unat (ucast (h div 8) :: 32 word)"
    by (simp only: unat_mult_lem)
  then show ?thesis by (simp only: a b)
qed

lemma unat_ucast_32_64: "unat (ucast (w :: 32 word) :: 64 word) = unat w"
proof -
  have "unat w < 2 ^ 32" using unsigned_less[of w] by simp
  then have "unat w < 2 ^ 64" by simp
  then show ?thesis by (simp add: unsigned_ucast_eq take_bit_nat_eq_self)
qed

lemma unat_fpsMilliToMs:
  assumes "fps \<noteq> 0"
  shows "unat (fpsMilliToMs fps) = (1000000 + unat fps div 2) div unat fps"
proof -
  have lt: "unat fps < 2 ^ 32" using unsigned_less[of fps] by simp
  have a: "unat (ucast (fps div 2) :: 64 word) = unat fps div 2"
    by (simp add: unat_ucast_32_64 unat_div)
  have c: "unat ((1000000 :: 64 word) + ucast (fps div 2)) = 1000000 + unat fps div 2"
    using lt by (simp add: unat_word_ariths a)
  have d: "unat (((1000000 :: 64 word) + ucast (fps div 2)) div ucast fps)
      = (1000000 + unat fps div 2) div unat fps"
    by (simp only: unat_div unat_ucast_32_64 c)
  have e: "(1000000 + unat fps div 2) div unat fps < 2 ^ 32"
  proof -
    have "(1000000 + unat fps div 2) div unat fps \<le> 1000000 + unat fps div 2"
      by (rule div_le_dividend)
    also have "\<dots> < 2 ^ 32" using lt by simp
    finally show ?thesis .
  qed
  have "unat (ucast (((1000000 :: 64 word) + ucast (fps div 2)) div ucast fps) :: 32 word)
      = (1000000 + unat fps div 2) div unat fps"
    using e by (simp only: unsigned_ucast_eq d) (simp add: take_bit_nat_eq_self)
  then show ?thesis
    using assms by (simp add: fpsMilliToMs_def)
qed

section \<open>Rounding\<close>

lemma round_div_nat:
  assumes "0 < n"
  shows "round (real a / real n) = int ((2 * a + n) div (2 * n))"
proof -
  have "real a / real n + 1 / 2 = real (2 * a + n) / real (2 * n)"
    using assms by (simp add: field_simps)
  then have "round (real a / real n) = \<lfloor>real (2 * a + n) / real (2 * n)\<rfloor>"
    by (simp add: round_def)
  also have "\<dots> = int ((2 * a + n) div (2 * n))"
    by (simp only: floor_divide_of_nat_eq)
  finally show ?thesis .
qed

lemma half_up_div: "(2 * a + n) div (2 * n) = (a + n div 2) div (n::nat)"
proof -
  have "(2 * a + n) div (2 * n) = ((2 * a + n) div 2) div n"
    by (simp add: div_mult2_eq)
  then show ?thesis by simp
qed

lemma round_million:
  assumes "0 < n"
  shows "round (1000000 / real n) = int ((1000000 + n div 2) div n)"
  using round_div_nat[OF assms, of 1000000] half_up_div[of 1000000 n] by simp

lemma spec_delay_nonzero:
  assumes "0 < n" "n \<le> 2000000"
  shows "spec_frameDelayMs n = int ((1000000 + n div 2) div n)"
proof -
  have "n \<le> 1000000 + n div 2" using assms by linarith
  then have "1 \<le> (1000000 + n div 2) div n"
    using assms(1) by (simp add: Suc_le_eq div_greater_zero_iff)
  then show ?thesis
    using assms by (simp add: spec_frameDelayMs_def round_million)
qed

lemma spec_delay_zero: "spec_frameDelayMs 0 = 67"
  using round_million[of 15000] by (simp add: spec_frameDelayMs_def)

section \<open>Reading the header\<close>

lemma parseHeader_append: "length data = 32 \<Longrightarrow> parseHeader (data @ ys) = parseHeader data"
  by (simp add: parseHeader_def nth_append)

lemma parseHeader_take: "parseHeader (take 32 xs) = parseHeader xs"
  by (simp add: parseHeader_def drop_take)

lemma File_read_Some:
  "File_read (Some fl) n =
     (take n (drop (pos fl) (content fl)),
      of_nat (min n (length (content fl) - pos fl)),
      Some (fl\<lparr>pos := pos fl + min n (length (content fl) - pos fl)\<rparr>))"
  by (simp add: File_read_def fread_def Let_def min.commute)

lemma word32_neq_32: "k \<le> 32 \<Longrightarrow> ((of_nat k :: 32 word) \<noteq> of_nat 32) = (k \<noteq> 32)"
  using of_nat_eq_32[of k 32] by simp

lemma readHeader_short:
  assumes "f s = Some fl" "length (content fl) - pos fl < 32"
  shows "fst (readHeader s) = False"
  using assms word32_neq_32[of "length (content fl) - pos fl"]
  by (simp add: readHeader_def File_read_Some sizeof_MovieHeader_def Let_def min_def)

lemma readHeader_long:
  assumes "f s = Some fl" "32 \<le> length (content fl) - pos fl"
  shows "readHeader s =
     (let h = parseHeader (drop (pos fl) (content fl));
          fl' = fl\<lparr>pos := pos fl + 32\<rparr>
      in if strncmp (magic h) SSD1306V1 8 \<noteq> 0 \<or> height h mod 8 \<noteq> 0
         then (False, s\<lparr>f := Some fl', hdr := h\<rparr>)
         else (True, s\<lparr>f := Some fl',
                 hdr := h\<lparr>fps_milli := (if fps_milli h = 0 then 15000 else fps_milli h)\<rparr>,
                 frameSize := ucast (width h) * ucast (height h div 8),
                 frameDelayMs :=
                   (if 1000000 div (if fps_milli h = 0 then 15000 else fps_milli h) = 0 then 1
                    else 1000000 div (if fps_milli h = 0 then 15000 else fps_milli h))\<rparr>))"
proof -
  have len: "length (take 32 (drop (pos fl) (content fl))) = 32"
    using assms(2) by simp
  have ph: "parseHeader (overwrite (take 32 (drop (pos fl) (content fl))) (headerBytes (hdr s)))
      = parseHeader (drop (pos fl) (content fl))"
    unfolding overwrite_def by (simp only: parseHeader_append[OF len] parseHeader_take)
  show ?thesis
    using assms
    by (simp add: readHeader_def File_read_Some sizeof_MovieHeader_def Let_def ph min_def)
qed

section \<open>The magic check and the example streams\<close>

lemma uint_neq0: "(y::byte) \<noteq> 0 \<Longrightarrow> uint y \<noteq> 0"
  by (simp add: uint_0_iff)

lemma strncmp_Nil: "y \<noteq> 0 \<Longrightarrow> strncmp [] (y # ys) (Suc n) \<noteq> 0"
  using uint_neq0[of y] by (simp add: chr0_def)

lemma strncmp_Cons_neq: "x \<noteq> y \<Longrightarrow> strncmp (x # xs) (y # ys) (Suc n) \<noteq> 0"
proof -
  assume "x \<noteq> y"
  then have "uint x \<noteq> uint y" using word_uint_eqI by blast
  with \<open>x \<noteq> y\<close> show ?thesis by (simp add: chr0_def)
qed

lemma strncmp_Cons_eq: "y \<noteq> 0 \<Longrightarrow> strncmp (y # xs) (y # ys) (Suc n) = strncmp xs ys n"
  by (simp add: chr0_def)

lemma strncmp_eq0_iff:
  "0 \<notin> set (take n b) \<Longrightarrow> n \<le> length b \<Longrightarrow> (strncmp a b n = 0) = (take n a = take n b)"
proof (induction n arbitrary: a b)
  case 0
  then show ?case by simp
next
  case (Suc n)
  then obtain y ys where b: "b = y # ys" by (cases b) auto
  with Suc.prems have y: "y \<noteq> 0" and ys: "0 \<notin> set (take n ys)" "n \<le> length ys" by auto
  show ?case
  proof (cases a)
    case Nil
    have "strncmp [] (y # ys) (Suc n) \<noteq> 0" using y by (rule strncmp_Nil)
    then show ?thesis unfolding Nil b by simp
  next
    case (Cons x xs)
    show ?thesis
    proof (cases "x = y")
      case True
      have "strncmp (y # xs) (y # ys) (Suc n) = strncmp xs ys n"
        using y by (rule strncmp_Cons_eq)
      moreover have "(strncmp xs ys n = 0) = (take n xs = take n ys)"
        using ys by (rule Suc.IH)
      ultimately show ?thesis unfolding Cons b True by simp
    next
      case False
      then have "strncmp (x # xs) (y # ys) (Suc n) \<noteq> 0" by (rule strncmp_Cons_neq)
      then show ?thesis unfolding Cons b using False by simp
    qed
  qed
qed

lemma SSD_bytes: "SSD1306V1 = [0x53, 0x53, 0x44, 0x31, 0x33, 0x30, 0x36, 0x56, 0x31]"
  by (simp add: SSD1306V1_def)

lemma magic_check_iff: "(strncmp m SSD1306V1 8 = 0) = (take 8 m = take 8 SSD1306V1)"
  by (rule strncmp_eq0_iff) (simp_all add: SSD_bytes)

lemma replicate_11: "replicate 11 (0::byte) = [0, 0, 0, 0, 0, 0, 0, 0, 0, 0, 0]"
  by (simp add: eval_nat_numeral)

lemma headerBytes_tiny:
  "headerBytes tiny_hdr = [0x53, 0x53, 0x44, 0x31, 0x33, 0x30, 0x36, 0x56, 8, 0, 8, 0,
     0x98, 0x3A, 0, 0, 1, 0, 0, 0, 0, 0, 0, 0, 0, 0, 0, 0, 0, 0, 0, 0]"
  by (simp add: headerBytes_def tiny_hdr_def fit_def bytes16_def bytes32_def SSD_bytes
      replicate_11)

lemma headerBytes_scenario:
  "headerBytes scenario_hdr = [0x53, 0x53, 0x44, 0x31, 0x33, 0x30, 0x36, 0x56, 128, 0, 64, 0,
     0x30, 0x75, 0, 0, 2, 0, 0, 0, 1, 0, 0, 0, 0, 0, 0, 0, 0, 0, 0, 0]"
  by (simp add: headerBytes_def scenario_hdr_def fit_def bytes16_def bytes32_def SSD_bytes
      replicate_11)

lemma parse_tiny: "parseHeader (tiny_file xs) = tiny_hdr"
  unfolding tiny_file_def headerBytes_tiny
  by (simp add: parseHeader_def le16_def le32_def tiny_hdr_def SSD_bytes replicate_11)

lemma parse_scenario: "parseHeader (scenario_file xs ys) = scenario_hdr"
  unfolding scenario_file_def headerBytes_scenario
  by (simp add: parseHeader_def le16_def le32_def scenario_hdr_def SSD_bytes replicate_11)

lemma length_tiny_file: "length (tiny_file xs) = 32 + length xs"
  by (simp add: tiny_file_def headerBytes_tiny)

lemma length_scenario_file: "length (scenario_file xs ys) = 32 + length xs + length ys"
  by (simp add: scenario_file_def headerBytes_scenario)

lemma magic_tiny: "strncmp (magic tiny_hdr) SSD1306V1 8 = 0"
  by (simp add: magic_check_iff tiny_hdr_def)

lemma magic_scenario: "strncmp (magic scenario_hdr) SSD1306V1 8 = 0"
  by (simp add: magic_check_iff scenario_hdr_def)

lemma readHeader_tiny:
  "readHeader (boot_basic\<lparr>f := Some \<lparr>content = tiny_file xs, pos = 0\<rparr>\<rparr>) =
     (True, boot_basic\<lparr>f := Some \<lparr>content = tiny_file xs, pos = 32\<rparr>, hdr := tiny_hdr,
        frameSize := 8, frameDelayMs := 66\<rparr>)"
proof -
  have "f (boot_basic\<lparr>f := Some \<lparr>content = tiny_file xs, pos = 0\<rparr>\<rparr>)
      = Some \<lparr>content = tiny_file xs, pos = 0\<rparr>"
    by simp
  from readHeader_long[OF this] show ?thesis
    by (simp add: length_tiny_file parse_tiny magic_tiny Let_def)
       (simp add: tiny_hdr_def boot_basic_def)
qed

lemma unat_delay_basic:
  fixes fps :: "32 word"
  assumes "fps \<noteq> 0"
  shows "unat (if 1000000 div fps = 0 then 1 else 1000000 div fps) = max 1 (1000000 div unat fps)"
proof -
  have d: "unat (1000000 div fps) = 1000000 div unat fps" by (simp add: unat_div)
  show ?thesis
  proof (cases "1000000 div fps = 0")
    case True
    then have "1000000 div unat fps = 0" using d by simp
    then show ?thesis using True by simp
  next
    case False
    then have "unat (1000000 div fps) \<noteq> 0" by (simp add: unat_eq_0)
    then show ?thesis using False d by simp
  qed
qed

lemma readHeader_delay:
  assumes "f s = Some fl" "readHeader s = (True, s')"
  shows "unat (frameDelayMs s') =
     max 1 (1000000 div (if fps_milli (parseHeader (drop (pos fl) (content fl))) = 0 then 15000
        else unat (fps_milli (parseHeader (drop (pos fl) (content fl))))))"
proof -
  let ?h = "parseHeader (drop (pos fl) (content fl))"
  let ?fps = "if fps_milli ?h = 0 then 15000 else fps_milli ?h"
  have long: "32 \<le> length (content fl) - pos fl"
    using readHeader_short[OF assms(1)] assms(2) by (cases "32 \<le> length (content fl) - pos fl") auto
  have eq: "frameDelayMs s' = (if 1000000 div ?fps = 0 then 1 else 1000000 div ?fps)"
    using readHeader_long[OF assms(1) long] assms(2)
    by (auto simp: Let_def split: if_splits)
  have nz: "?fps \<noteq> 0" by simp
  have "unat (frameDelayMs s') = max 1 (1000000 div unat ?fps)"
    unfolding eq by (rule unat_delay_basic[OF nz])
  then show ?thesis by (simp split: if_splits)
qed

section \<open>C3: the frame delay\<close>

text \<open>
  C3 (amended). In the uploader sketch \<open>fpsMilliToMs\<close> is the specification's rounded
  formula for every nonzero \<open>fps_milli\<close> up to 2000000, it returns 66 for
  \<open>fps_milli = 0\<close>, and 67 for 15000. In the plain player an accepted header gives
  the truncated quotient \<open>1000000 div fps_milli\<close>, with 15000 in place of a zero
  \<open>fps_milli\<close>, clamped to a minimum of 1.
\<close>

theorem frame_delay_from_fps_milli:
  "(fps \<noteq> 0 \<and> unat fps \<le> 2000000 \<longrightarrow> uint (fpsMilliToMs fps) = spec_frameDelayMs (unat fps))
   \<and> fpsMilliToMs 0 = 66
   \<and> fpsMilliToMs 15000 = 67
   \<and> (f s = Some fl \<and> readHeader s = (True, s') \<longrightarrow>
        unat (frameDelayMs s') =
          max 1 (1000000 div
            (if fps_milli (parseHeader (drop (pos fl) (content fl))) = 0 then 15000
             else unat (fps_milli (parseHeader (drop (pos fl) (content fl)))))))"
proof (intro conjI impI)
  assume a: "fps \<noteq> 0 \<and> unat fps \<le> 2000000"
  then have pos: "0 < unat fps" by (simp add: unat_gt_0)
  have "uint (fpsMilliToMs fps) = int (unat (fpsMilliToMs fps))" by simp
  also have "\<dots> = int ((1000000 + unat fps div 2) div unat fps)"
    using a unat_fpsMilliToMs[of fps] by simp
  also have "\<dots> = spec_frameDelayMs (unat fps)"
    using spec_delay_nonzero[OF pos] a by simp
  finally show "uint (fpsMilliToMs fps) = spec_frameDelayMs (unat fps)" .
next
  show "fpsMilliToMs 0 = 66" by (simp add: fpsMilliToMs_def)
next
  show "fpsMilliToMs 15000 = 67" by (simp add: fpsMilliToMs_def)
next
  assume "f s = Some fl \<and> readHeader s = (True, s')"
  then show "unat (frameDelayMs s') =
          max 1 (1000000 div
            (if fps_milli (parseHeader (drop (pos fl) (content fl))) = 0 then 15000
             else unat (fps_milli (parseHeader (drop (pos fl) (content fl))))))"
    using readHeader_delay by blast
qed

theorem frame_delay_from_fps_milli_witness:
  "(30000 :: 32 word) \<noteq> 0 \<and> unat (30000 :: 32 word) \<le> 2000000
   \<and> uint (fpsMilliToMs 30000) = spec_frameDelayMs (unat (30000 :: 32 word))
   \<and> fst (readHeader (boot_basic\<lparr>f := Some \<lparr>content = tiny_file [], pos = 0\<rparr>\<rparr>)) = True
   \<and> unat (frameDelayMs
         (snd (readHeader (boot_basic\<lparr>f := Some \<lparr>content = tiny_file [], pos = 0\<rparr>\<rparr>)))) = 66"
proof -
  let ?fl = "\<lparr>content = tiny_file [], pos = 0\<rparr>"
  let ?s = "boot_basic\<lparr>f := Some ?fl\<rparr>"
  have f: "f ?s = Some ?fl" by simp
  have r: "readHeader ?s = (True, snd (readHeader ?s))" by (simp add: readHeader_tiny)
  have p: "parseHeader (drop (pos ?fl) (content ?fl)) = tiny_hdr" by (simp add: parse_tiny)
  have "unat (frameDelayMs (snd (readHeader ?s))) = 66"
    using frame_delay_from_fps_milli[of 30000 ?s ?fl "snd (readHeader ?s)"] f r
    unfolding p by (simp add: tiny_hdr_def)
  moreover have "uint (fpsMilliToMs 30000) = spec_frameDelayMs (unat (30000 :: 32 word))"
    using frame_delay_from_fps_milli[of 30000 ?s ?fl "snd (readHeader ?s)"] by simp
  moreover have "fst (readHeader ?s) = True" by (simp add: readHeader_tiny)
  ultimately show ?thesis by simp
qed

theorem frame_delay_counterexample:
  "uint (fpsMilliToMs 0) \<noteq> spec_frameDelayMs (unat (0 :: 32 word))
   \<and> uint (frameDelayMs
         (snd (readHeader (boot_basic\<lparr>f := Some \<lparr>content = tiny_file [], pos = 0\<rparr>\<rparr>))))
       \<noteq> spec_frameDelayMs (unat (fps_milli (parseHeader (tiny_file []))))"
proof -
  have "spec_frameDelayMs 15000 = 67" by (simp add: spec_delay_nonzero)
  then show ?thesis
    by (simp add: spec_delay_zero fpsMilliToMs_def readHeader_tiny parse_tiny tiny_hdr_def)
qed

section \<open>Opening the movie in the uploader sketch\<close>

lemma readHeaderFromFile_short:
  assumes "length (content fl) < 32"
  shows "readHeaderFromFile (Some fl) = (None, Some (fl\<lparr>pos := length (content fl)\<rparr>))"
  using assms word32_neq_32[of "length (content fl)"]
  by (simp add: readHeaderFromFile_def File_seek_def fseek_def File_read_Some
      sizeof_MovieHeader_def Let_def min_def)

lemma readHeaderFromFile_long:
  assumes "32 \<le> length (content fl)"
  shows "readHeaderFromFile (Some fl) =
     (if strncmp (magic (parseHeader (content fl))) SSD1306V1 8 \<noteq> 0
         \<or> height (parseHeader (content fl)) mod 8 \<noteq> 0
      then None else Some (parseHeader (content fl)), Some (fl\<lparr>pos := 32\<rparr>))"
  using assms
  by (simp add: readHeaderFromFile_def File_seek_def fseek_def File_read_Some
      sizeof_MovieHeader_def Let_def min_def parseHeader_take)

lemma open_missing:
  assumes "fs s = None"
  shows "openMovieFileAndReadHeader s = (False, s\<lparr>f := None, hasHeader := False\<rparr>)"
  using assms by (simp add: openMovieFileAndReadHeader_def open_r_def Let_def safeCloseFile_def)

lemma open_legacy:
  assumes "fs s = Some bs"
    and "length bs < 32 \<or> take 8 bs \<noteq> take 8 SSD1306V1 \<or> height (parseHeader bs) mod 8 \<noteq> 0"
  shows "openMovieFileAndReadHeader s =
     (True, s\<lparr>f := Some \<lparr>content = bs, pos = 0\<rparr>,
        hdr := (hdr s)\<lparr>width := 128, height := 64, fps_milli := 15000,
                 frame_count := 0, flags := 0\<rparr>,
        hasHeader := False, frameSize := 1024, frameDelayMs := 66\<rparr>)"
proof (cases "length bs < 32")
  case True
  then show ?thesis
    using assms(1)
    by (simp add: openMovieFileAndReadHeader_def open_r_def Let_def safeCloseFile_def
        readHeaderFromFile_short File_seek_def fseek_def)
next
  case False
  then have long: "32 \<le> length bs" by simp
  have m: "take 8 (magic (parseHeader bs)) = take 8 bs" by (simp add: parseHeader_def)
  have bad: "strncmp (magic (parseHeader bs)) SSD1306V1 8 \<noteq> 0
      \<or> height (parseHeader bs) mod 8 \<noteq> 0"
    using assms(2) False by (simp add: magic_check_iff m)
  show ?thesis
    using assms(1) long bad
    by (simp add: openMovieFileAndReadHeader_def open_r_def Let_def safeCloseFile_def
        readHeaderFromFile_long File_seek_def fseek_def)
qed

lemma open_header:
  assumes "fs s = Some bs"
    and "32 \<le> length bs" "take 8 bs = take 8 SSD1306V1" "height (parseHeader bs) mod 8 = 0"
  shows "openMovieFileAndReadHeader s =
     (True, s\<lparr>f := Some \<lparr>content = bs, pos = 32\<rparr>, hdr := parseHeader bs,
        hasHeader := True,
        frameSize := ucast (width (parseHeader bs)) * ucast (height (parseHeader bs) div 8),
        frameDelayMs := fpsMilliToMs (fps_milli (parseHeader bs))\<rparr>)"
proof -
  have m: "take 8 (magic (parseHeader bs)) = take 8 bs" by (simp add: parseHeader_def)
  have ok: "strncmp (magic (parseHeader bs)) SSD1306V1 8 = 0"
    using assms(3) by (simp add: magic_check_iff m)
  show ?thesis
    using assms(1,2,4) ok
    by (simp add: openMovieFileAndReadHeader_def open_r_def Let_def safeCloseFile_def
        readHeaderFromFile_long File_seek_def fseek_def sizeof_MovieHeader_def)
qed

section \<open>The cases of a scheduler tick\<close>

lemma short_read_iff:
  fixes fsz :: "32 word"
  assumes "unat fsz < 2 ^ 31" "k \<le> unat fsz"
  shows "((of_nat k :: 32 word) <s fsz) = (k < unat fsz)"
proof -
  have k: "unat (of_nat k :: 32 word) = k"
    using assms by (intro unat_of_nat_32) simp
  then have "unat (of_nat k :: 32 word) < 2 ^ 31" using assms by simp
  from sless_small[OF this assms(1)] show ?thesis by (simp only: k)
qed

lemma length_fit: "length (fit n xs) = n"
  by (simp add: fit_def)

lemma overwrite_full: "length d = length m \<Longrightarrow> overwrite d m = d"
  by (simp add: overwrite_def)

lemma playback_closed: "f s = None \<Longrightarrow> playback junk now s = ([], s)"
  by (simp add: playback_def)

lemma playback_early: "now - lastMs s < frameDelayMs s \<Longrightarrow> playback junk now s = ([], s)"
  by (simp add: playback_def)

lemma playback_whole:
  assumes "f s = Some fl" "\<not> now - lastMs s < frameDelayMs s" "unat (frameSize s) < 2 ^ 31"
    and "unat (frameSize s) \<le> length (content fl) - pos fl"
  shows "playback junk now s =
     (Read (unat (frameSize s)) (unat (frameSize s))
        # drawFrame (hdr s) (take (unat (frameSize s)) (drop (pos fl) (content fl))),
      s\<lparr>lastMs := now, f := Some (fl\<lparr>pos := pos fl + unat (frameSize s)\<rparr>)\<rparr>)"
proof -
  let ?n = "unat (frameSize s)"
  have m: "min ?n (length (content fl) - pos fl) = ?n"
    "min (length (content fl) - pos fl) ?n = ?n" using assms(4) by simp_all
  have lt: "\<not> ((of_nat ?n :: 32 word) <s frameSize s)"
    using short_read_iff[OF assms(3), of ?n] by simp
  have len: "length (take ?n (drop (pos fl) (content fl))) = length (fit ?n junk)"
    using assms(4) by (simp add: length_fit)
  show ?thesis
    using assms(1,2) lt
    by (simp add: playback_def File_read_Some Let_def m overwrite_full[OF len])
qed

lemma playback_rewind:
  assumes "f s = Some fl" "\<not> now - lastMs s < frameDelayMs s" "unat (frameSize s) < 2 ^ 31"
    and "length (content fl) - pos fl < unat (frameSize s)"
    and "unat (frameSize s) \<le> length (content fl) - first_frame_offset (hasHeader s)"
  shows "playback junk now s =
     (Read (unat (frameSize s)) (length (content fl) - pos fl)
        # Seek (first_frame_offset (hasHeader s))
        # Read (unat (frameSize s)) (unat (frameSize s))
        # drawFrame (hdr s)
            (take (unat (frameSize s)) (drop (first_frame_offset (hasHeader s)) (content fl))),
      s\<lparr>lastMs := now,
         f := Some (fl\<lparr>pos := first_frame_offset (hasHeader s) + unat (frameSize s)\<rparr>)\<rparr>)"
proof -
  let ?n = "unat (frameSize s)"
  let ?off = "first_frame_offset (hasHeader s)"
  let ?k = "length (content fl) - pos fl"
  have m1: "min ?n ?k = ?k" "min ?k ?n = ?k" using assms(4) by simp_all
  have s1: "(of_nat ?k :: 32 word) <s frameSize s"
    using short_read_iff[OF assms(3), of ?k] assms(4) by simp
  have m2: "min ?n (length (content fl) - ?off) = ?n"
    "min (length (content fl) - ?off) ?n = ?n" using assms(5) by simp_all
  have s2: "\<not> ((of_nat ?n :: 32 word) <s frameSize s)"
    using short_read_iff[OF assms(3), of ?n] by simp
  have len: "length (take ?n (drop ?off (content fl)))
      = length (overwrite (take ?n (drop (pos fl) (content fl))) (fit ?n junk))"
    using assms(4,5) by (simp add: overwrite_def length_fit)
  have off: "(if hasHeader s then sizeof_MovieHeader else 0) = ?off"
    by (simp add: first_frame_offset_def)
  show ?thesis
    using assms(1,2) s1 s2
    by (simp add: playback_def File_read_Some File_seek_def fseek_def Let_def m1 m2 off
        overwrite_full[OF len])
qed

lemma playback_dropped:
  assumes "f s = Some fl" "\<not> now - lastMs s < frameDelayMs s" "unat (frameSize s) < 2 ^ 31"
    and "length (content fl) - pos fl < unat (frameSize s)"
    and "length (content fl) - first_frame_offset (hasHeader s) < unat (frameSize s)"
  shows "playback junk now s =
     ([Read (unat (frameSize s)) (length (content fl) - pos fl),
       Seek (first_frame_offset (hasHeader s)),
       Read (unat (frameSize s)) (length (content fl) - first_frame_offset (hasHeader s))],
      s\<lparr>lastMs := now,
         f := Some (fl\<lparr>pos := first_frame_offset (hasHeader s)
                + (length (content fl) - first_frame_offset (hasHeader s))\<rparr>)\<rparr>)"
proof -
  let ?n = "unat (frameSize s)"
  let ?off = "first_frame_offset (hasHeader s)"
  let ?k = "length (content fl) - pos fl"
  let ?k2 = "length (content fl) - ?off"
  have m1: "min ?n ?k = ?k" "min ?k ?n = ?k" using assms(4) by simp_all
  have s1: "(of_nat ?k :: 32 word) <s frameSize s"
    using short_read_iff[OF assms(3), of ?k] assms(4) by simp
  have m2: "min ?n ?k2 = ?k2" "min ?k2 ?n = ?k2" using assms(5) by simp_all
  have s2: "(of_nat ?k2 :: 32 word) <s frameSize s"
    using short_read_iff[OF assms(3), of ?k2] assms(5) by simp
  have off: "(if hasHeader s then sizeof_MovieHeader else 0) = ?off"
    by (simp add: first_frame_offset_def)
  show ?thesis
    using assms(1,2) s1 s2
    by (simp add: playback_def File_read_Some File_seek_def fseek_def Let_def m1 m2 off)
qed

section \<open>The cases of a tick of the plain player\<close>

lemma loop_basic_early: "now - lastMs s < frameDelayMs s \<Longrightarrow> loop_basic junk now s = ([], s)"
  by (simp add: loop_basic_def)

lemma loop_basic_whole:
  assumes "f s = Some fl" "\<not> now - lastMs s < frameDelayMs s" "unat (frameSize s) < 2 ^ 31"
    and "unat (frameSize s) \<le> length (content fl) - pos fl"
  shows "loop_basic junk now s =
     (Read (unat (frameSize s)) (unat (frameSize s))
        # drawFrame (hdr s) (take (unat (frameSize s)) (drop (pos fl) (content fl))),
      s\<lparr>lastMs := now, f := Some (fl\<lparr>pos := pos fl + unat (frameSize s)\<rparr>)\<rparr>)"
proof -
  let ?n = "unat (frameSize s)"
  have m: "min ?n (length (content fl) - pos fl) = ?n"
    "min (length (content fl) - pos fl) ?n = ?n" using assms(4) by simp_all
  have lt: "\<not> ((of_nat ?n :: 32 word) <s frameSize s)"
    using short_read_iff[OF assms(3), of ?n] by simp
  have len: "length (take ?n (drop (pos fl) (content fl))) = length (fit ?n junk)"
    using assms(4) by (simp add: length_fit)
  show ?thesis
    using assms(1,2) lt
    by (simp add: loop_basic_def File_read_Some Let_def m overwrite_full[OF len])
qed

lemma loop_basic_rewind:
  assumes "f s = Some fl" "\<not> now - lastMs s < frameDelayMs s" "unat (frameSize s) < 2 ^ 31"
    and "length (content fl) - pos fl < unat (frameSize s)"
    and "unat (frameSize s) \<le> length (content fl) - first_frame_offset (hasHeader s)"
  shows "loop_basic junk now s =
     (Read (unat (frameSize s)) (length (content fl) - pos fl)
        # Seek (first_frame_offset (hasHeader s))
        # Read (unat (frameSize s)) (unat (frameSize s))
        # drawFrame (hdr s)
            (take (unat (frameSize s)) (drop (first_frame_offset (hasHeader s)) (content fl))),
      s\<lparr>lastMs := now,
         f := Some (fl\<lparr>pos := first_frame_offset (hasHeader s) + unat (frameSize s)\<rparr>)\<rparr>)"
proof -
  let ?n = "unat (frameSize s)"
  let ?off = "first_frame_offset (hasHeader s)"
  let ?k = "length (content fl) - pos fl"
  have m1: "min ?n ?k = ?k" "min ?k ?n = ?k" using assms(4) by simp_all
  have s1: "(of_nat ?k :: 32 word) <s frameSize s"
    using short_read_iff[OF assms(3), of ?k] assms(4) by simp
  have m2: "min ?n (length (content fl) - ?off) = ?n"
    "min (length (content fl) - ?off) ?n = ?n" using assms(5) by simp_all
  have len: "length (take ?n (drop ?off (content fl)))
      = length (overwrite (take ?n (drop (pos fl) (content fl))) (fit ?n junk))"
    using assms(4,5) by (simp add: overwrite_def length_fit)
  have off: "(if hasHeader s then sizeof_MovieHeader else 0) = ?off"
    by (simp add: first_frame_offset_def)
  show ?thesis
    using assms(1,2) s1
    by (simp add: loop_basic_def File_read_Some File_seek_def fseek_def Let_def m1 m2 off
        overwrite_full[OF len])
qed

lemma loop_basic_unchecked:
  assumes "f s = Some fl" "\<not> now - lastMs s < frameDelayMs s" "unat (frameSize s) < 2 ^ 31"
    and "length (content fl) - pos fl < unat (frameSize s)"
  shows "loop_basic junk now s =
     (Read (unat (frameSize s)) (length (content fl) - pos fl)
        # Seek (first_frame_offset (hasHeader s))
        # Read (unat (frameSize s))
            (min (unat (frameSize s)) (length (content fl) - first_frame_offset (hasHeader s)))
        # drawFrame (hdr s)
            (overwrite
               (take (unat (frameSize s)) (drop (first_frame_offset (hasHeader s)) (content fl)))
               (overwrite (take (unat (frameSize s)) (drop (pos fl) (content fl)))
                  (fit (unat (frameSize s)) junk))),
      s\<lparr>lastMs := now,
         f := Some (fl\<lparr>pos := first_frame_offset (hasHeader s)
                + min (unat (frameSize s))
                    (length (content fl) - first_frame_offset (hasHeader s))\<rparr>)\<rparr>)"
proof -
  let ?n = "unat (frameSize s)"
  let ?off = "first_frame_offset (hasHeader s)"
  let ?k = "length (content fl) - pos fl"
  have m1: "min ?n ?k = ?k" "min ?k ?n = ?k" using assms(4) by simp_all
  have s1: "(of_nat ?k :: 32 word) <s frameSize s"
    using short_read_iff[OF assms(3), of ?k] assms(4) by simp
  have off: "(if hasHeader s then sizeof_MovieHeader else 0) = ?off"
    by (simp add: first_frame_offset_def)
  show ?thesis
    using assms(1,2) s1
    by (simp add: loop_basic_def File_read_Some File_seek_def fseek_def Let_def m1 off
        min.commute)
qed

section \<open>The drawing loop\<close>

lemma unat_of_nat_byte: "p < 256 \<Longrightarrow> unat (of_nat p :: byte) = p"
  by (simp add: unat_of_nat)

lemma unat_rowOff:
  fixes w :: "16 word"
  assumes "p < 256"
  shows "unat ((of_nat p :: 32 word) * ucast w) = p * unat w"
proof -
  have w: "unat w < 2 ^ 16" using unsigned_less[of w] by simp
  have p: "unat (of_nat p :: 32 word) = p" using assms by (intro unat_of_nat_32) simp
  have "p * unat w < 2 ^ 8 * 2 ^ 16"
    using assms w by (intro mult_strict_mono') simp_all
  then have "unat (of_nat p :: 32 word) * unat (ucast w :: 32 word) < 2 ^ LENGTH(32)"
    by (simp only: p unat_ucast_16_32) simp
  then have "unat ((of_nat p :: 32 word) * ucast w)
      = unat (of_nat p :: 32 word) * unat (ucast w :: 32 word)"
    by (simp only: unat_mult_lem)
  then show ?thesis by (simp only: p unat_ucast_16_32)
qed

lemma unat_byte_lt: "unat (b :: byte) < 256"
  using unsigned_less[of b] by simp

lemma drawFrame_eq:
  "drawFrame h fbuf =
     map (\<lambda>page. DrawTile 0 (of_nat page) (ucast (width h div 8))
            (take (8 * unat (ucast (width h div 8) :: byte)) (drop (page * unat (width h)) fbuf)))
       [0 ..< unat (ucast (height h div 8) :: byte)]"
proof -
  have "\<And>p. p \<in> set [0 ..< unat (ucast (height h div 8) :: byte)] \<Longrightarrow> p < 256"
    using unat_byte_lt[of "ucast (height h div 8)"] by simp
  then show ?thesis
    unfolding drawFrame_def Let_def
    by (intro map_cong refl) (simp add: unat_rowOff)
qed

lemma drawFrame_member:
  assumes "DrawTile x y cnt bs \<in> set (drawFrame h fbuf)"
  shows "x = 0 \<and> cnt = ucast (width h div 8)
     \<and> unat y < unat (ucast (height h div 8) :: byte)
     \<and> bs = take (8 * unat cnt) (drop (unat y * unat (width h)) fbuf)"
proof -
  from assms obtain p where p: "p < unat (ucast (height h div 8) :: byte)"
    and e: "DrawTile x y cnt bs = DrawTile 0 (of_nat p) (ucast (width h div 8))
            (take (8 * unat (ucast (width h div 8) :: byte)) (drop (p * unat (width h)) fbuf))"
    unfolding drawFrame_eq by auto
  have "p < 256" using p unat_byte_lt[of "ucast (height h div 8)"] by simp
  then have "unat (of_nat p :: byte) = p" by (rule unat_of_nat_byte)
  then show ?thesis using p e by simp
qed

lemma drawFrame_only_draws: "e \<in> set (drawFrame h fbuf) \<Longrightarrow> is_draw e"
  unfolding drawFrame_eq by auto

section \<open>Rendered bytes are stored bytes\<close>

lemma geometry_small:
  assumes "geometry_ok s"
  shows "unat (frameSize s) < 2 ^ 31"
proof -
  have "unat (frameSize s) = unat (width (hdr s)) * (unat (height (hdr s)) div 8)"
    using assms by (simp only: geometry_ok_def unat_frame_mult)
  also have "\<dots> < 2 ^ 29" by (rule frame_mult_lt)
  finally show ?thesis by simp
qed

lemma slice_nth:
  assumes "i < length (take c (drop r (take n (drop p xs))))"
  shows "take c (drop r (take n (drop p xs))) ! i = xs ! (p + r + i)"
proof -
  from assms have i: "i < c" and ri: "r + i < n" and pri: "p + (r + i) < length xs"
    by auto
  have "take c (drop r (take n (drop p xs))) ! i = drop r (take n (drop p xs)) ! i"
    using i by simp
  also have "\<dots> = take n (drop p xs) ! (r + i)"
    using ri pri by (intro nth_drop) simp
  also have "\<dots> = drop p xs ! (r + i)" using ri by simp
  also have "\<dots> = xs ! (p + (r + i))" using pri by (intro nth_drop) simp
  finally show ?thesis by (simp add: add.assoc)
qed

lemma playback_draws_stored:
  assumes fl: "f s = Some fl" and g: "geometry_ok s"
    and d: "DrawTile x y cnt bs \<in> set (fst (playback junk now s))"
    and i: "i < length bs"
  shows "bs ! i = content fl !
     (frame_start fl (unat (frameSize s)) (hasHeader s) + unat y * unat (width (hdr s)) + i)"
proof -
  let ?n = "unat (frameSize s)"
  let ?off = "first_frame_offset (hasHeader s)"
  have small: "?n < 2 ^ 31" using g by (rule geometry_small)
  have el: "\<not> now - lastMs s < frameDelayMs s"
    using d playback_early[of now s junk] by auto
  show ?thesis
  proof (cases "?n \<le> length (content fl) - pos fl")
    case True
    then have st: "frame_start fl ?n (hasHeader s) = pos fl" by (simp add: frame_start_def)
    from d have "DrawTile x y cnt bs \<in> set (drawFrame (hdr s) (take ?n (drop (pos fl) (content fl))))"
      by (simp add: playback_whole[OF fl el small True])
    from drawFrame_member[OF this]
    have bs: "bs = take (8 * unat cnt) (drop (unat y * unat (width (hdr s)))
        (take ?n (drop (pos fl) (content fl))))" by simp
    show ?thesis using i unfolding st bs by (rule slice_nth)
  next
    case short: False
    then have st: "frame_start fl ?n (hasHeader s) = ?off" by (simp add: frame_start_def)
    from short have short': "length (content fl) - pos fl < ?n" by simp
    show ?thesis
    proof (cases "?n \<le> length (content fl) - ?off")
      case True
      from d have "DrawTile x y cnt bs \<in> set (drawFrame (hdr s) (take ?n (drop ?off (content fl))))"
        by (simp add: playback_rewind[OF fl el small short' True])
      from drawFrame_member[OF this]
      have bs: "bs = take (8 * unat cnt) (drop (unat y * unat (width (hdr s)))
          (take ?n (drop ?off (content fl))))" by simp
      show ?thesis using i unfolding st bs by (rule slice_nth)
    next
      case False
      then have "length (content fl) - ?off < ?n" by simp
      from d playback_dropped[OF fl el small short' this] show ?thesis by simp
    qed
  qed
qed

lemma loop_basic_draws_stored:
  assumes fl: "f s = Some fl" and g: "geometry_ok s"
    and av: "unat (frameSize s)
        \<le> length (content fl) - frame_start fl (unat (frameSize s)) (hasHeader s)"
    and d: "DrawTile x y cnt bs \<in> set (fst (loop_basic junk now s))"
    and i: "i < length bs"
  shows "bs ! i = content fl !
     (frame_start fl (unat (frameSize s)) (hasHeader s) + unat y * unat (width (hdr s)) + i)"
proof -
  let ?n = "unat (frameSize s)"
  let ?off = "first_frame_offset (hasHeader s)"
  have small: "?n < 2 ^ 31" using g by (rule geometry_small)
  have el: "\<not> now - lastMs s < frameDelayMs s"
    using d loop_basic_early[of now s junk] by auto
  show ?thesis
  proof (cases "?n \<le> length (content fl) - pos fl")
    case True
    then have st: "frame_start fl ?n (hasHeader s) = pos fl" by (simp add: frame_start_def)
    from d have "DrawTile x y cnt bs \<in> set (drawFrame (hdr s) (take ?n (drop (pos fl) (content fl))))"
      by (simp add: loop_basic_whole[OF fl el small True])
    from drawFrame_member[OF this]
    have bs: "bs = take (8 * unat cnt) (drop (unat y * unat (width (hdr s)))
        (take ?n (drop (pos fl) (content fl))))" by simp
    show ?thesis using i unfolding st bs by (rule slice_nth)
  next
    case short: False
    then have st: "frame_start fl ?n (hasHeader s) = ?off" by (simp add: frame_start_def)
    from short have short': "length (content fl) - pos fl < ?n" by simp
    from av have whole: "?n \<le> length (content fl) - ?off" unfolding st .
    from d have "DrawTile x y cnt bs \<in> set (drawFrame (hdr s) (take ?n (drop ?off (content fl))))"
      by (simp add: loop_basic_rewind[OF fl el small short' whole])
    from drawFrame_member[OF this]
    have bs: "bs = take (8 * unat cnt) (drop (unat y * unat (width (hdr s)))
        (take ?n (drop ?off (content fl))))" by simp
    show ?thesis using i unfolding st bs by (rule slice_nth)
  qed
qed

section \<open>The scenario stream\<close>

lemma tile_bytes_map:
  "tile_bytes (map (\<lambda>p. DrawTile a (g p) c (h p)) ps) = concat (map h ps)"
  by (induction ps) simp_all

lemma concat_slices: "concat (map (\<lambda>p. take w (drop (p * w) xs)) [0 ..< k]) = take (k * w) xs"
proof (induction k)
  case 0
  then show ?case by simp
next
  case (Suc k)
  have "take (k * w) xs @ take w (drop (k * w) xs) = take (k * w + w) xs"
    by (simp add: take_add)
  then show ?case using Suc by (simp add: add.commute)
qed

lemma tile_bytes_scenario:
  assumes "length fr = 1024"
  shows "tile_bytes (drawFrame scenario_hdr fr) = fr"
proof -
  have "tile_bytes (drawFrame scenario_hdr fr)
      = concat (map (\<lambda>p. take 128 (drop (p * 128) fr)) [0 ..< 8])"
    unfolding drawFrame_eq by (simp add: scenario_hdr_def tile_bytes_map)
  also have "\<dots> = take (8 * 128) fr" by (rule concat_slices)
  also have "\<dots> = fr" using assms by simp
  finally show ?thesis .
qed

lemma open_scenario:
  "openMovieFileAndReadHeader (boot (Some (scenario_file fr0 fr1))) =
     (True, (boot (Some (scenario_file fr0 fr1)))
        \<lparr>f := Some \<lparr>content = scenario_file fr0 fr1, pos = 32\<rparr>, hdr := scenario_hdr,
         hasHeader := True, frameSize := 1024, frameDelayMs := 33\<rparr>)"
proof -
  have fs: "fs (boot (Some (scenario_file fr0 fr1))) = Some (scenario_file fr0 fr1)"
    by (simp add: boot_def)
  have len: "32 \<le> length (scenario_file fr0 fr1)" by (simp add: length_scenario_file)
  have mg: "take 8 (scenario_file fr0 fr1) = take 8 SSD1306V1"
    by (simp add: scenario_file_def headerBytes_scenario SSD_bytes)
  have ht: "height (parseHeader (scenario_file fr0 fr1)) mod 8 = 0"
    by (simp add: parse_scenario scenario_hdr_def)
  show ?thesis
    unfolding open_header[OF fs len mg ht] parse_scenario
    by (simp add: scenario_hdr_def fpsMilliToMs_def)
qed

lemma drop_scenario: "drop 32 (scenario_file fr0 fr1) = fr0 @ fr1"
  by (simp add: scenario_file_def headerBytes_scenario)

lemma playback_scenario:
  assumes "length fr0 = 1024" "\<not> now < 33"
  shows "fst (playback junk now (snd (openMovieFileAndReadHeader
            (boot (Some (scenario_file fr0 fr1))))))
     = Read 1024 1024 # drawFrame scenario_hdr fr0"
proof -
  let ?fl = "\<lparr>content = scenario_file fr0 fr1, pos = 32\<rparr>"
  let ?s = "(boot (Some (scenario_file fr0 fr1)))\<lparr>f := Some ?fl, hdr := scenario_hdr,
         hasHeader := True, frameSize := 1024, frameDelayMs := 33\<rparr>"
  have a: "f ?s = Some ?fl" by simp
  have b: "\<not> now - lastMs ?s < frameDelayMs ?s" using assms(2) by (simp add: boot_def)
  have c: "unat (frameSize ?s) < 2 ^ 31" by simp
  have d: "unat (frameSize ?s) \<le> length (content ?fl) - pos ?fl"
    using assms(1) by (simp add: length_scenario_file)
  show ?thesis
    unfolding open_scenario snd_conv playback_whole[OF a b c d]
    using assms(1) by (simp add: drop_scenario)
qed

section \<open>The small stream\<close>

lemma drop_tiny: "drop 32 (tiny_file xs) = xs"
  by (simp add: tiny_file_def headerBytes_tiny)

lemma tiny_player_eq:
  "tiny_player xs = (boot (Some (tiny_file xs)))
        \<lparr>f := Some \<lparr>content = tiny_file xs, pos = 32\<rparr>, hdr := tiny_hdr,
         hasHeader := True, frameSize := 8, frameDelayMs := 67\<rparr>"
proof -
  have fs: "fs (boot (Some (tiny_file xs))) = Some (tiny_file xs)"
    by (simp add: boot_def)
  have len: "32 \<le> length (tiny_file xs)" by (simp add: length_tiny_file)
  have mg: "take 8 (tiny_file xs) = take 8 SSD1306V1"
    by (simp add: tiny_file_def headerBytes_tiny SSD_bytes)
  have ht: "height (parseHeader (tiny_file xs)) mod 8 = 0"
    by (simp add: parse_tiny tiny_hdr_def)
  show ?thesis
    unfolding tiny_player_def open_header[OF fs len mg ht] parse_tiny
    by (simp add: tiny_hdr_def fpsMilliToMs_def)
qed

lemma tiny_session_eq:
  "tiny_session xs = boot_basic\<lparr>f := Some \<lparr>content = tiny_file xs, pos = 32\<rparr>,
     hdr := tiny_hdr, frameSize := 8, frameDelayMs := 66, hasHeader := True\<rparr>"
  unfolding tiny_session_def setup_basic_def
  by (simp add: open_r_def readHeader_tiny Let_def)

lemma setup_basic_tiny: "setup_basic True (Some (tiny_file xs)) = Some (tiny_session xs)"
  unfolding tiny_session_def setup_basic_def
  by (simp add: open_r_def readHeader_tiny Let_def)

lemma drawFrame_tiny: "drawFrame tiny_hdr fbuf = [DrawTile 0 0 1 (take 8 fbuf)]"
  unfolding drawFrame_eq by (simp add: tiny_hdr_def)

lemma geometry_tiny_player: "geometry_ok (tiny_player xs)"
  by (simp add: tiny_player_eq geometry_ok_def tiny_hdr_def)

lemma geometry_tiny_session: "geometry_ok (tiny_session xs)"
  by (simp add: tiny_session_eq geometry_ok_def tiny_hdr_def)

lemma playback_tiny:
  assumes "8 \<le> length xs" "\<not> now < 67"
  shows "playback junk now (tiny_player xs) =
     ([Read 8 8, DrawTile 0 0 1 (take 8 xs)],
      (tiny_player xs)\<lparr>lastMs := now, f := Some \<lparr>content = tiny_file xs, pos = 40\<rparr>\<rparr>)"
proof -
  let ?fl = "\<lparr>content = tiny_file xs, pos = 32\<rparr>"
  have a: "f (tiny_player xs) = Some ?fl" by (simp add: tiny_player_eq)
  have b: "\<not> now - lastMs (tiny_player xs) < frameDelayMs (tiny_player xs)"
    using assms(2) by (simp add: tiny_player_eq boot_def)
  have n: "unat (frameSize (tiny_player xs)) = 8" by (simp add: tiny_player_eq)
  have c: "unat (frameSize (tiny_player xs)) < 2 ^ 31" unfolding n by simp
  have d: "unat (frameSize (tiny_player xs)) \<le> length (content ?fl) - pos ?fl"
    unfolding n using assms(1) by (simp add: length_tiny_file)
  have h: "hdr (tiny_player xs) = tiny_hdr" by (simp add: tiny_player_eq)
  show ?thesis
    unfolding playback_whole[OF a b c d] n h drawFrame_tiny
    using assms(1) by (simp add: drop_tiny)
qed

lemma loop_basic_tiny:
  assumes "8 \<le> length xs" "\<not> now < 66"
  shows "loop_basic junk now (tiny_session xs) =
     ([Read 8 8, DrawTile 0 0 1 (take 8 xs)],
      (tiny_session xs)\<lparr>lastMs := now, f := Some \<lparr>content = tiny_file xs, pos = 40\<rparr>\<rparr>)"
proof -
  let ?fl = "\<lparr>content = tiny_file xs, pos = 32\<rparr>"
  have a: "f (tiny_session xs) = Some ?fl" by (simp add: tiny_session_eq)
  have b: "\<not> now - lastMs (tiny_session xs) < frameDelayMs (tiny_session xs)"
    using assms(2) by (simp add: tiny_session_eq boot_basic_def)
  have n: "unat (frameSize (tiny_session xs)) = 8" by (simp add: tiny_session_eq)
  have c: "unat (frameSize (tiny_session xs)) < 2 ^ 31" unfolding n by simp
  have d: "unat (frameSize (tiny_session xs)) \<le> length (content ?fl) - pos ?fl"
    unfolding n using assms(1) by (simp add: length_tiny_file)
  have h: "hdr (tiny_session xs) = tiny_hdr" by (simp add: tiny_session_eq)
  show ?thesis
    unfolding loop_basic_whole[OF a b c d] n h drawFrame_tiny
    using assms(1) by (simp add: drop_tiny)
qed

section \<open>C1: what the sink receives\<close>

text \<open>
  C1 (amended). Whatever the header's flags, every byte handed to the tile-write
  primitive is the stored frame byte itself, never its complement: byte \<open>i\<close> of
  the call for page \<open>y\<close> is the file's byte at the start of the frame plus
  \<open>y * width + i\<close>. This holds for the uploader sketch, and for the plain player
  whenever the file holds a whole frame where the tick reads. For the scenario
  header (128x64, \<open>fps_milli = 30000\<close>, \<open>flags = 1\<close>) the frame size is 1024, the
  delay is 33 ms, and the bytes rendered by the first tick are the bytes of the
  first frame.
\<close>

theorem rendered_bytes_are_stored_bytes:
  "(f s = Some fl \<and> geometry_ok s
      \<and> DrawTile x y cnt bs \<in> set (fst (playback junk now s)) \<and> i < length bs
    \<longrightarrow> bs ! i = content fl !
          (frame_start fl (unat (frameSize s)) (hasHeader s) + unat y * unat (width (hdr s)) + i))
   \<and> (f t = Some fl \<and> geometry_ok t
      \<and> unat (frameSize t) \<le> length (content fl) - frame_start fl (unat (frameSize t)) (hasHeader t)
      \<and> DrawTile x y cnt bs \<in> set (fst (loop_basic junk now t)) \<and> i < length bs
    \<longrightarrow> bs ! i = content fl !
          (frame_start fl (unat (frameSize t)) (hasHeader t) + unat y * unat (width (hdr t)) + i))
   \<and> (length fr0 = 1024 \<and> \<not> now < 33
    \<longrightarrow> flags (hdr (snd (openMovieFileAndReadHeader (boot (Some (scenario_file fr0 fr1)))))) AND 1 = 1
      \<and> frameSize (snd (openMovieFileAndReadHeader (boot (Some (scenario_file fr0 fr1))))) = 1024
      \<and> frameDelayMs (snd (openMovieFileAndReadHeader (boot (Some (scenario_file fr0 fr1))))) = 33
      \<and> tile_bytes (fst (playback junk now
            (snd (openMovieFileAndReadHeader (boot (Some (scenario_file fr0 fr1))))))) = fr0)"
proof (intro conjI impI)
  assume "f s = Some fl \<and> geometry_ok s
      \<and> DrawTile x y cnt bs \<in> set (fst (playback junk now s)) \<and> i < length bs"
  then show "bs ! i = content fl !
          (frame_start fl (unat (frameSize s)) (hasHeader s) + unat y * unat (width (hdr s)) + i)"
    using playback_draws_stored by blast
next
  assume "f t = Some fl \<and> geometry_ok t
      \<and> unat (frameSize t) \<le> length (content fl) - frame_start fl (unat (frameSize t)) (hasHeader t)
      \<and> DrawTile x y cnt bs \<in> set (fst (loop_basic junk now t)) \<and> i < length bs"
  then show "bs ! i = content fl !
          (frame_start fl (unat (frameSize t)) (hasHeader t) + unat y * unat (width (hdr t)) + i)"
    using loop_basic_draws_stored by blast
next
  assume a: "length fr0 = 1024 \<and> \<not> now < 33"
  show "flags (hdr (snd (openMovieFileAndReadHeader (boot (Some (scenario_file fr0 fr1)))))) AND 1 = 1"
    by (simp add: open_scenario scenario_hdr_def)
  show "frameSize (snd (openMovieFileAndReadHeader (boot (Some (scenario_file fr0 fr1))))) = 1024"
    by (simp add: open_scenario)
  show "frameDelayMs (snd (openMovieFileAndReadHeader (boot (Some (scenario_file fr0 fr1))))) = 33"
    by (simp add: open_scenario)
  from a have len: "length fr0 = 1024" and el: "\<not> now < 33" by simp_all
  show "tile_bytes (fst (playback junk now
            (snd (openMovieFileAndReadHeader (boot (Some (scenario_file fr0 fr1))))))) = fr0"
    unfolding playback_scenario[OF len el] using tile_bytes_scenario[OF len] by simp
qed

theorem rendered_bytes_are_stored_bytes_witness:
  "f (tiny_player [1, 2, 3, 4, 5, 6, 7, 8]) = Some \<lparr>content = tiny_file [1, 2, 3, 4, 5, 6, 7, 8], pos = 32\<rparr>
   \<and> geometry_ok (tiny_player [1, 2, 3, 4, 5, 6, 7, 8])
   \<and> DrawTile 0 0 1 [1, 2, 3, 4, 5, 6, 7, 8]
        \<in> set (fst (playback [] 67 (tiny_player [1, 2, 3, 4, 5, 6, 7, 8])))
   \<and> (3 :: nat) < length [1, 2, 3, 4, 5, 6, 7, 8 :: byte]
   \<and> [1, 2, 3, 4, 5, 6, 7, 8 :: byte] ! 3 = tiny_file [1, 2, 3, 4, 5, 6, 7, 8] ! 35
   \<and> f (tiny_session [1, 2, 3, 4, 5, 6, 7, 8]) = Some \<lparr>content = tiny_file [1, 2, 3, 4, 5, 6, 7, 8], pos = 32\<rparr>
   \<and> geometry_ok (tiny_session [1, 2, 3, 4, 5, 6, 7, 8])
   \<and> DrawTile 0 0 1 [1, 2, 3, 4, 5, 6, 7, 8]
        \<in> set (fst (loop_basic [] 67 (tiny_session [1, 2, 3, 4, 5, 6, 7, 8])))
   \<and> length (replicate 1024 (0 :: byte)) = 1024 \<and> \<not> (33 :: 32 word) < 33
   \<and> tile_bytes (fst (playback [] 33
        (snd (openMovieFileAndReadHeader
           (boot (Some (scenario_file (replicate 1024 0) (replicate 1024 255))))))))
       = replicate 1024 0"
proof -
  let ?xs = "[1, 2, 3, 4, 5, 6, 7, 8 :: byte]"
  let ?fl = "\<lparr>content = tiny_file ?xs, pos = 32\<rparr>"
  have p1: "f (tiny_player ?xs) = Some ?fl" by (simp add: tiny_player_eq)
  have p2: "geometry_ok (tiny_player ?xs)" by (rule geometry_tiny_player)
  have p3: "DrawTile 0 0 1 ?xs \<in> set (fst (playback [] 67 (tiny_player ?xs)))"
    by (simp add: playback_tiny)
  have p4: "(3 :: nat) < length ?xs" by simp
  have q1: "f (tiny_session ?xs) = Some ?fl" by (simp add: tiny_session_eq)
  have q2: "geometry_ok (tiny_session ?xs)" by (rule geometry_tiny_session)
  have q3: "DrawTile 0 0 1 ?xs \<in> set (fst (loop_basic [] 67 (tiny_session ?xs)))"
    by (simp add: loop_basic_tiny)
  have st: "frame_start ?fl 8 True = 32"
    by (simp add: frame_start_def length_tiny_file)
  have q0: "unat (frameSize (tiny_session ?xs))
      \<le> length (content ?fl)
        - frame_start ?fl (unat (frameSize (tiny_session ?xs))) (hasHeader (tiny_session ?xs))"
    by (simp add: tiny_session_eq st length_tiny_file)
  have r1: "length (replicate 1024 (0 :: byte)) = 1024" by simp
  have r2: "\<not> (33 :: 32 word) < 33" by simp
  note inst = rendered_bytes_are_stored_bytes[of "tiny_player ?xs" ?fl 0 0 1 ?xs "[]" 67 3
      "tiny_session ?xs" "replicate 1024 0" "replicate 1024 255"]
  have a: "?xs ! 3 = content ?fl !
      (frame_start ?fl (unat (frameSize (tiny_player ?xs))) (hasHeader (tiny_player ?xs))
        + unat (0 :: byte) * unat (width (hdr (tiny_player ?xs))) + 3)"
    using inst p1 p2 p3 p4 by blast
  have a': "?xs ! 3 = tiny_file ?xs ! 35"
    using a by (simp add: tiny_player_eq st)
  have a2: "?xs ! 3 = content ?fl !
      (frame_start ?fl (unat (frameSize (tiny_session ?xs))) (hasHeader (tiny_session ?xs))
        + unat (0 :: byte) * unat (width (hdr (tiny_session ?xs))) + 3)"
    using inst q1 q2 q0 q3 p4 by blast
  have b: "tile_bytes (fst (playback [] 33
        (snd (openMovieFileAndReadHeader
           (boot (Some (scenario_file (replicate 1024 0) (replicate 1024 255))))))))
       = replicate 1024 0"
    using rendered_bytes_are_stored_bytes[of _ _ _ _ _ _ "[]" 33 _ _ "replicate 1024 0"
        "replicate 1024 255"] r1 r2 by blast
  show ?thesis using p1 p2 p3 p4 a' a2 q1 q2 q3 r1 r2 b by blast
qed

theorem rendered_bytes_counterexample:
  "flags (hdr (snd (openMovieFileAndReadHeader
        (boot (Some (scenario_file (replicate 1024 0) (replicate 1024 255))))))) AND 1 = 1
   \<and> tile_bytes (fst (playback [] 33
        (snd (openMovieFileAndReadHeader
           (boot (Some (scenario_file (replicate 1024 0) (replicate 1024 255))))))))
       \<noteq> map NOT (take 1024 (drop 32 (scenario_file (replicate 1024 0) (replicate 1024 255))))"
proof -
  have len: "length (replicate 1024 (0 :: byte)) = 1024" by simp
  have el: "\<not> (33 :: 32 word) < 33" by simp
  have "tile_bytes (fst (playback [] 33
        (snd (openMovieFileAndReadHeader
           (boot (Some (scenario_file (replicate 1024 0) (replicate 1024 255))))))))
       = replicate 1024 0"
    unfolding playback_scenario[OF len el] using tile_bytes_scenario[OF len] by simp
  moreover have "map NOT (take 1024 (drop 32 (scenario_file (replicate 1024 0) (replicate 1024 255))))
      = replicate 1024 (255 :: byte)"
    by (simp add: drop_scenario)
  moreover have "replicate 1024 (0 :: byte) \<noteq> replicate 1024 255"
    by (simp add: replicate_eq_replicate)
  moreover have "flags (hdr (snd (openMovieFileAndReadHeader
        (boot (Some (scenario_file (replicate 1024 0) (replicate 1024 255))))))) AND 1 = 1"
    by (simp add: open_scenario scenario_hdr_def)
  ultimately show ?thesis by simp
qed

section \<open>What a tick changes\<close>

lemma playback_lastMs:
  assumes "f s \<noteq> None" "\<not> now - lastMs s < frameDelayMs s"
  shows "lastMs (snd (playback junk now s)) = now"
  using assms
  by (auto simp: playback_def Let_def case_prod_beta)

lemma loop_basic_lastMs:
  assumes "\<not> now - lastMs s < frameDelayMs s"
  shows "lastMs (snd (loop_basic junk now s)) = now"
  using assms
  by (auto simp: loop_basic_def Let_def case_prod_beta)

lemma playback_keeps:
  "hdr (snd (playback junk now s)) = hdr s"
  "frameSize (snd (playback junk now s)) = frameSize s"
  "frameDelayMs (snd (playback junk now s)) = frameDelayMs s"
  "hasHeader (snd (playback junk now s)) = hasHeader s"
  "fs (snd (playback junk now s)) = fs s"
  "uploadFile (snd (playback junk now s)) = uploadFile s"
  by (auto simp: playback_def Let_def case_prod_beta)

lemma loop_basic_keeps:
  "hdr (snd (loop_basic junk now s)) = hdr s"
  "frameSize (snd (loop_basic junk now s)) = frameSize s"
  "frameDelayMs (snd (loop_basic junk now s)) = frameDelayMs s"
  "hasHeader (snd (loop_basic junk now s)) = hasHeader s"
  by (auto simp: loop_basic_def Let_def case_prod_beta)

lemma File_read_open: "(snd (snd (File_read h n)) = None) = (h = None)"
  by (cases h) (simp_all add: File_read_def fread_def Let_def)

lemma File_seek_open: "(File_seek h off = None) = (h = None)"
  by (simp add: File_seek_def)

lemma playback_stays_open: "(f (snd (playback junk now s)) = None) = (f s = None)"
  by (auto simp: playback_def Let_def case_prod_beta File_read_open File_seek_open)

lemma File_read_content:
  "h = Some fl \<Longrightarrow> \<exists>p. snd (snd (File_read h n)) = Some (fl\<lparr>pos := p\<rparr>)"
  by (auto simp: File_read_def fread_def Let_def)

section \<open>C6: when the last-tick time is updated\<close>

lemma playback_tiny_short:
  assumes "length xs < 8" "\<not> now < 67"
  shows "playback junk now (tiny_player xs) =
     ([Read 8 (length xs), Seek 32, Read 8 (length xs)],
      (tiny_player xs)\<lparr>lastMs := now,
         f := Some \<lparr>content = tiny_file xs, pos = 32 + length xs\<rparr>\<rparr>)"
proof -
  let ?fl = "\<lparr>content = tiny_file xs, pos = 32\<rparr>"
  have a: "f (tiny_player xs) = Some ?fl" by (simp add: tiny_player_eq)
  have b: "\<not> now - lastMs (tiny_player xs) < frameDelayMs (tiny_player xs)"
    using assms(2) by (simp add: tiny_player_eq boot_def)
  have n: "unat (frameSize (tiny_player xs)) = 8" by (simp add: tiny_player_eq)
  have o: "first_frame_offset (hasHeader (tiny_player xs)) = 32"
    by (simp add: tiny_player_eq first_frame_offset_def sizeof_MovieHeader_def)
  have c: "unat (frameSize (tiny_player xs)) < 2 ^ 31" unfolding n by simp
  have d: "length (content ?fl) - pos ?fl < unat (frameSize (tiny_player xs))"
    unfolding n using assms(1) by (simp add: length_tiny_file)
  have e: "length (content ?fl) - first_frame_offset (hasHeader (tiny_player xs))
      < unat (frameSize (tiny_player xs))"
    unfolding n o using assms(1) by (simp add: length_tiny_file)
  show ?thesis
    unfolding playback_dropped[OF a b c d e] n o
    by (simp add: length_tiny_file)
qed

lemma loop_basic_tiny_short:
  assumes "length xs < 8" "\<not> now < 66"
  shows "loop_basic junk now (tiny_session xs) =
     ([Read 8 (length xs), Seek 32, Read 8 (length xs),
       DrawTile 0 0 1 (take 8 (xs @ drop (length xs) (fit 8 junk)))],
      (tiny_session xs)\<lparr>lastMs := now,
         f := Some \<lparr>content = tiny_file xs, pos = 32 + length xs\<rparr>\<rparr>)"
proof -
  let ?fl = "\<lparr>content = tiny_file xs, pos = 32\<rparr>"
  have a: "f (tiny_session xs) = Some ?fl" by (simp add: tiny_session_eq)
  have b: "\<not> now - lastMs (tiny_session xs) < frameDelayMs (tiny_session xs)"
    using assms(2) by (simp add: tiny_session_eq boot_basic_def)
  have n: "unat (frameSize (tiny_session xs)) = 8" by (simp add: tiny_session_eq)
  have o: "first_frame_offset (hasHeader (tiny_session xs)) = 32"
    by (simp add: tiny_session_eq first_frame_offset_def sizeof_MovieHeader_def)
  have h: "hdr (tiny_session xs) = tiny_hdr" by (simp add: tiny_session_eq)
  have c: "unat (frameSize (tiny_session xs)) < 2 ^ 31" unfolding n by simp
  have d: "length (content ?fl) - pos ?fl < unat (frameSize (tiny_session xs))"
    unfolding n using assms(1) by (simp add: length_tiny_file)
  show ?thesis
    unfolding loop_basic_unchecked[OF a b c d] n o h drawFrame_tiny
    using assms(1) by (simp add: length_tiny_file drop_tiny overwrite_def length_fit)
qed

text \<open>
  C6 (amended). A tick that arrives before \<open>frameDelayMs\<close> has elapsed is a no-op: it
  issues nothing and leaves the whole state unchanged. On every other tick (in the
  uploader sketch: with the file open) \<open>lastMs\<close> is set to the time of the tick
  before the frame is read, whether or not the frame is rendered.
\<close>

theorem lastMs_set_before_read:
  "(now - lastMs s < frameDelayMs s \<longrightarrow> playback junk now s = ([], s))
   \<and> (now - lastMs t < frameDelayMs t \<longrightarrow> loop_basic junk now t = ([], t))
   \<and> (f s \<noteq> None \<and> \<not> now - lastMs s < frameDelayMs s
        \<longrightarrow> lastMs (snd (playback junk now s)) = now)
   \<and> (\<not> now - lastMs t < frameDelayMs t \<longrightarrow> lastMs (snd (loop_basic junk now t)) = now)"
  using playback_early[of now s junk] loop_basic_early[of now t junk]
    playback_lastMs[of s now junk] loop_basic_lastMs[of now t junk]
  by blast

theorem lastMs_set_before_read_witness:
  "(10 :: 32 word) - lastMs (tiny_player [1, 2, 3]) < frameDelayMs (tiny_player [1, 2, 3])
   \<and> playback [] 10 (tiny_player [1, 2, 3]) = ([], tiny_player [1, 2, 3])
   \<and> (10 :: 32 word) - lastMs (tiny_session [1, 2, 3]) < frameDelayMs (tiny_session [1, 2, 3])
   \<and> loop_basic [] 10 (tiny_session [1, 2, 3]) = ([], tiny_session [1, 2, 3])
   \<and> f (tiny_player [1, 2, 3]) \<noteq> None
   \<and> \<not> (100 :: 32 word) - lastMs (tiny_player [1, 2, 3]) < frameDelayMs (tiny_player [1, 2, 3])
   \<and> lastMs (snd (playback [] 100 (tiny_player [1, 2, 3]))) = 100
   \<and> \<not> (100 :: 32 word) - lastMs (tiny_session [1, 2, 3]) < frameDelayMs (tiny_session [1, 2, 3])
   \<and> lastMs (snd (loop_basic [] 100 (tiny_session [1, 2, 3]))) = 100"
proof -
  let ?s = "tiny_player [1, 2, 3]"
  let ?t = "tiny_session [1, 2, 3]"
  have e1: "(10 :: 32 word) - lastMs ?s < frameDelayMs ?s"
    by (simp add: tiny_player_eq boot_def)
  have e2: "(10 :: 32 word) - lastMs ?t < frameDelayMs ?t"
    by (simp add: tiny_session_eq boot_basic_def)
  have o: "f ?s \<noteq> None" by (simp add: tiny_player_eq)
  have l1: "\<not> (100 :: 32 word) - lastMs ?s < frameDelayMs ?s"
    by (simp add: tiny_player_eq boot_def)
  have l2: "\<not> (100 :: 32 word) - lastMs ?t < frameDelayMs ?t"
    by (simp add: tiny_session_eq boot_basic_def)
  show ?thesis
    using lastMs_set_before_read[of 10 ?s "[]" ?t] lastMs_set_before_read[of 100 ?s "[]" ?t]
      e1 e2 o l1 l2
    by blast
qed

theorem lastMs_dropped_frame_counterexample:
  "fst (playback [] 100 (tiny_player [1, 2, 3])) = [Read 8 3, Seek 32, Read 8 3]
   \<and> lastMs (tiny_player [1, 2, 3]) = 0
   \<and> lastMs (snd (playback [] 100 (tiny_player [1, 2, 3]))) = 100"
proof -
  have "length [1, 2, 3 :: byte] < 8" by simp
  moreover have "\<not> (100 :: 32 word) < 67" by simp
  ultimately have "playback [] 100 (tiny_player [1, 2, 3]) =
     ([Read 8 (length [1, 2, 3 :: byte]), Seek 32, Read 8 (length [1, 2, 3 :: byte])],
      (tiny_player [1, 2, 3])\<lparr>lastMs := 100,
         f := Some \<lparr>content = tiny_file [1, 2, 3], pos = 32 + length [1, 2, 3 :: byte]\<rparr>\<rparr>)"
    by (rule playback_tiny_short)
  then show ?thesis by (simp add: tiny_player_eq boot_def)
qed

section \<open>C2: the retry after a short read\<close>

text \<open>
  The retry in the uploader sketch. When the first read of a tick is short it
  seeks to the first-frame offset and reads once more; when that read is short
  too, the tick ends there, with no tile write, and the next tick goes through
  the same seek and read.
\<close>

lemma uploader_retries_once:
  assumes "f s = Some fl" "geometry_ok s" "\<not> now - lastMs s < frameDelayMs s"
    and "length (content fl) - pos fl < unat (frameSize s)"
  shows "filter (\<lambda>e. \<not> is_draw e) (fst (playback junk now s)) =
     [Read (unat (frameSize s)) (length (content fl) - pos fl),
      Seek (first_frame_offset (hasHeader s)),
      Read (unat (frameSize s))
        (min (unat (frameSize s)) (length (content fl) - first_frame_offset (hasHeader s)))]"
proof -
  have small: "unat (frameSize s) < 2 ^ 31" using assms(2) by (rule geometry_small)
  have nd: "filter (\<lambda>e. \<not> is_draw e) (drawFrame h fbuf) = []" for h fbuf
    using drawFrame_only_draws[of _ h fbuf] by (simp add: filter_empty_conv)
  show ?thesis
  proof (cases "unat (frameSize s) \<le> length (content fl) - first_frame_offset (hasHeader s)")
    case True
    then show ?thesis
      unfolding playback_rewind[OF assms(1,3) small assms(4) True] by (simp add: nd)
  next
    case False
    then have sh: "length (content fl) - first_frame_offset (hasHeader s) < unat (frameSize s)"
      by simp
    show ?thesis
      unfolding playback_dropped[OF assms(1,3) small assms(4) sh] using sh by simp
  qed
qed

lemma uploader_drops_frame:
  assumes "f s = Some fl" "geometry_ok s" "\<not> now - lastMs s < frameDelayMs s"
    and "length (content fl) - pos fl < unat (frameSize s)"
    and "length (content fl) - first_frame_offset (hasHeader s) < unat (frameSize s)"
    and "\<not> now' - now < frameDelayMs s"
  shows "fst (playback junk now s) =
     [Read (unat (frameSize s)) (length (content fl) - pos fl),
      Seek (first_frame_offset (hasHeader s)),
      Read (unat (frameSize s)) (length (content fl) - first_frame_offset (hasHeader s))]"
    and "tiles_written (fst (playback junk now s)) = 0"
    and "fst (playback junk' now' (snd (playback junk now s))) =
     [Read (unat (frameSize s))
        (length (content fl)
          - (first_frame_offset (hasHeader s)
              + (length (content fl) - first_frame_offset (hasHeader s)))),
      Seek (first_frame_offset (hasHeader s)),
      Read (unat (frameSize s)) (length (content fl) - first_frame_offset (hasHeader s))]"
proof -
  let ?off = "first_frame_offset (hasHeader s)"
  let ?fl' = "fl\<lparr>pos := ?off + (length (content fl) - ?off)\<rparr>"
  let ?s' = "s\<lparr>lastMs := now, f := Some ?fl'\<rparr>"
  have small: "unat (frameSize s) < 2 ^ 31" using assms(2) by (rule geometry_small)
  note first = playback_dropped[OF assms(1,3) small assms(4,5)]
  show "fst (playback junk now s) =
     [Read (unat (frameSize s)) (length (content fl) - pos fl), Seek ?off,
      Read (unat (frameSize s)) (length (content fl) - ?off)]"
    unfolding first by simp
  show "tiles_written (fst (playback junk now s)) = 0"
    unfolding first by simp
  have a: "f ?s' = Some ?fl'" by simp
  have b: "\<not> now' - lastMs ?s' < frameDelayMs ?s'" using assms(6) by simp
  have c: "unat (frameSize ?s') < 2 ^ 31" using small by simp
  have d: "length (content ?fl') - pos ?fl' < unat (frameSize ?s')"
    using assms(5) by simp
  have e: "length (content ?fl') - first_frame_offset (hasHeader ?s') < unat (frameSize ?s')"
    using assms(5) by simp
  show "fst (playback junk' now' (snd (playback junk now s))) =
     [Read (unat (frameSize s)) (length (content fl) - (?off + (length (content fl) - ?off))),
      Seek ?off, Read (unat (frameSize s)) (length (content fl) - ?off)]"
    unfolding first snd_conv playback_dropped[OF a b c d e] by simp
qed

text \<open>
  C2 (defect in the plain player). The plain player does not look at what the
  second read returned. On the small stream cut to 3 frame bytes, with a frame
  buffer that held \<open>0xAA\<close> bytes before, the first tick reads 3 of 8 bytes, seeks
  to 32, reads 3 of 8 bytes again, and then issues a tile write of the 3 file
  bytes followed by 5 bytes the buffer held before.
\<close>

theorem plain_player_renders_after_short_retry:
  "setup_basic True (Some (tiny_file [1, 2, 3])) = Some (tiny_session [1, 2, 3])
   \<and> fst (loop_basic (replicate 8 0xAA) 66 (tiny_session [1, 2, 3])) =
       [Read 8 3, Seek 32, Read 8 3,
        DrawTile 0 0 1 [1, 2, 3, 0xAA, 0xAA, 0xAA, 0xAA, 0xAA]]
   \<and> fst (playback (replicate 8 0xAA) 67 (tiny_player [1, 2, 3])) =
       [Read 8 3, Seek 32, Read 8 3]"
proof -
  have l: "length [1, 2, 3 :: byte] < 8" by simp
  have e: "\<not> (66 :: 32 word) < 66" "\<not> (67 :: 32 word) < 67" by simp_all
  have r: "replicate 8 (0xAA :: byte) = [0xAA, 0xAA, 0xAA, 0xAA, 0xAA, 0xAA, 0xAA, 0xAA]"
    by (simp add: eval_nat_numeral)
  show ?thesis
    unfolding loop_basic_tiny_short[OF l e(1)] playback_tiny_short[OF l e(2)]
    by (simp add: setup_basic_tiny fit_def r)
qed

section \<open>Header decoding fails\<close>

lemma readHeader_file:
  assumes "f s = Some fl"
  shows "\<exists>p. f (snd (readHeader s)) = Some (fl\<lparr>pos := p\<rparr>)"
  using assms
  by (auto simp: readHeader_def File_read_Some Let_def)

lemma readHeader_fails_iff:
  assumes "f s = Some fl"
  shows "(\<not> fst (readHeader s)) =
     (length (content fl) - pos fl < 32
      \<or> take 8 (drop (pos fl) (content fl)) \<noteq> take 8 SSD1306V1
      \<or> height (parseHeader (drop (pos fl) (content fl))) mod 8 \<noteq> 0)"
proof (cases "length (content fl) - pos fl < 32")
  case True
  then show ?thesis using readHeader_short[OF assms True] by simp
next
  case False
  then have long: "32 \<le> length (content fl) - pos fl" by simp
  have m: "take 8 (magic (parseHeader (drop (pos fl) (content fl))))
      = take 8 (drop (pos fl) (content fl))" by (simp add: parseHeader_def)
  show ?thesis
    using False by (simp add: readHeader_long[OF assms long] Let_def magic_check_iff m)
qed

lemma readHeaderFromFile_fails_iff:
  "(fst (readHeaderFromFile (Some \<lparr>content = bs, pos = p\<rparr>)) = None) =
     (length bs < 32 \<or> take 8 bs \<noteq> take 8 SSD1306V1 \<or> height (parseHeader bs) mod 8 \<noteq> 0)"
proof (cases "length bs < 32")
  case True
  then show ?thesis by (simp add: readHeaderFromFile_short)
next
  case False
  have m: "take 8 (magic (parseHeader bs)) = take 8 bs" by (simp add: parseHeader_def)
  show ?thesis
    using False by (simp add: readHeaderFromFile_long magic_check_iff m)
qed

lemma setup_basic_legacy:
  assumes "length bs < 32 \<or> take 8 bs \<noteq> take 8 SSD1306V1 \<or> height (parseHeader bs) mod 8 \<noteq> 0"
  shows "\<exists>t. setup_basic True (Some bs) = Some t \<and> legacy_mode bs t"
proof -
  let ?fl = "\<lparr>content = bs, pos = 0\<rparr>"
  let ?s0 = "boot_basic\<lparr>f := Some ?fl\<rparr>"
  have f0: "f ?s0 = Some ?fl" by simp
  have bad: "\<not> fst (readHeader ?s0)"
    using assms by (simp add: readHeader_fails_iff[OF f0])
  obtain p where p: "f (snd (readHeader ?s0)) = Some (?fl\<lparr>pos := p\<rparr>)"
    using readHeader_file[OF f0] by blast
  show ?thesis
    using bad p
    by (simp add: setup_basic_def open_r_def Let_def case_prod_beta legacy_mode_def
        File_seek_def fseek_def)
qed

lemma open_legacy_mode:
  assumes "length bs < 32 \<or> take 8 bs \<noteq> take 8 SSD1306V1 \<or> height (parseHeader bs) mod 8 \<noteq> 0"
  shows "fst (openMovieFileAndReadHeader (s\<lparr>fs := Some bs\<rparr>))"
    and "legacy_mode bs (snd (openMovieFileAndReadHeader (s\<lparr>fs := Some bs\<rparr>)))"
proof -
  have fs: "fs (s\<lparr>fs := Some bs\<rparr>) = Some bs" by simp
  show "fst (openMovieFileAndReadHeader (s\<lparr>fs := Some bs\<rparr>))"
    unfolding open_legacy[OF fs assms] by simp
  show "legacy_mode bs (snd (openMovieFileAndReadHeader (s\<lparr>fs := Some bs\<rparr>)))"
    unfolding open_legacy[OF fs assms] by (simp add: legacy_mode_def)
qed

lemma setup_player_legacy:
  assumes "length bs < 32 \<or> take 8 bs \<noteq> take 8 SSD1306V1 \<or> height (parseHeader bs) mod 8 \<noteq> 0"
  shows "\<exists>p. setup_player True (Some bs) = Some p \<and> legacy_mode bs p"
proof -
  have "boot (Some bs) = (boot None)\<lparr>fs := Some bs\<rparr>" by (simp add: boot_def)
  then show ?thesis
    using open_legacy_mode(2)[OF assms, of "boot None"] by (simp add: setup_player_def)
qed

section \<open>C4: the legacy fallback\<close>

text \<open>
  C4. Header decoding fails exactly when the file has fewer than 32 bytes, its
  first 8 bytes are not the magic, or the height field is not a multiple of 8.
  Whenever it fails on a file that opens, the uploader sketch (at boot and after
  an upload) and the plain player are in legacy mode: 128x64, \<open>fps_milli = 15000\<close>,
  frame count 0, frame size 1024, frame delay 66 ms, no header, cursor at byte 0.
\<close>

theorem legacy_fallback:
  "((fst (readHeaderFromFile (open_r (Some bs))) = None) =
      (length bs < 32 \<or> take 8 bs \<noteq> take 8 SSD1306V1 \<or> height (parseHeader bs) mod 8 \<noteq> 0))
   \<and> (length bs < 32 \<or> take 8 bs \<noteq> take 8 SSD1306V1 \<or> height (parseHeader bs) mod 8 \<noteq> 0
      \<longrightarrow> fst (openMovieFileAndReadHeader (s\<lparr>fs := Some bs\<rparr>))
        \<and> legacy_mode bs (snd (openMovieFileAndReadHeader (s\<lparr>fs := Some bs\<rparr>)))
        \<and> (\<exists>p. setup_player True (Some bs) = Some p \<and> legacy_mode bs p)
        \<and> (\<exists>t. setup_basic True (Some bs) = Some t \<and> legacy_mode bs t))"
proof (intro conjI impI)
  show "(fst (readHeaderFromFile (open_r (Some bs))) = None) =
      (length bs < 32 \<or> take 8 bs \<noteq> take 8 SSD1306V1 \<or> height (parseHeader bs) mod 8 \<noteq> 0)"
    unfolding open_r_def option.map by (rule readHeaderFromFile_fails_iff)
next
  assume bad: "length bs < 32 \<or> take 8 bs \<noteq> take 8 SSD1306V1
      \<or> height (parseHeader bs) mod 8 \<noteq> 0"
  show "fst (openMovieFileAndReadHeader (s\<lparr>fs := Some bs\<rparr>))"
    using bad by (rule open_legacy_mode(1))
  show "legacy_mode bs (snd (openMovieFileAndReadHeader (s\<lparr>fs := Some bs\<rparr>)))"
    using bad by (rule open_legacy_mode(2))
  show "\<exists>p. setup_player True (Some bs) = Some p \<and> legacy_mode bs p"
    using bad by (rule setup_player_legacy)
  show "\<exists>t. setup_basic True (Some bs) = Some t \<and> legacy_mode bs t"
    using bad by (rule setup_basic_legacy)
qed

theorem legacy_fallback_witness:
  "take 8 (0 # replicate 1023 (0 :: byte)) \<noteq> take 8 SSD1306V1
   \<and> fst (readHeaderFromFile (open_r (Some (0 # replicate 1023 0)))) = None
   \<and> fst (openMovieFileAndReadHeader ((boot None)\<lparr>fs := Some (0 # replicate 1023 0)\<rparr>))
   \<and> legacy_mode (0 # replicate 1023 0)
        (snd (openMovieFileAndReadHeader ((boot None)\<lparr>fs := Some (0 # replicate 1023 0)\<rparr>)))
   \<and> (\<exists>t. setup_basic True (Some (0 # replicate 1023 0)) = Some t
          \<and> legacy_mode (0 # replicate 1023 0) t)"
proof -
  have bad: "take 8 (0 # replicate 1023 (0 :: byte)) \<noteq> take 8 SSD1306V1"
    by (simp add: SSD_bytes)
  show ?thesis
    using legacy_fallback[of "0 # replicate 1023 0" "boot None"] bad by blast
qed

section \<open>C9: the magic check\<close>

lemma magic8: "take 8 SSD1306V1 = map of_char ''SSD1306V''"
  by (simp add: SSD_bytes)

lemma parse_magic_ok:
  "(strncmp (magic (parseHeader bs)) SSD1306V1 8 = 0) = (take 8 bs = map of_char ''SSD1306V'')"
proof -
  have m: "take 8 (magic (parseHeader bs)) = take 8 bs" by (simp add: parseHeader_def)
  show ?thesis unfolding magic_check_iff m magic8 ..
qed

text \<open>
  C9. The magic check is \<open>strncmp\<close> over 8 characters: it passes exactly when the
  first 8 bytes of the file are \<open>SSD1306V\<close>. The ninth byte of the file is the low
  byte of the width and is not compared, so every file of at least 32 bytes that
  starts with \<open>SSD1306V\<close> and has a height that is a multiple of 8 is accepted by
  both sketches, with that ninth byte read as part of the width.
\<close>

theorem magic_check_compares_8_bytes:
  "((strncmp (magic (parseHeader bs)) SSD1306V1 8 = 0) = (take 8 bs = map of_char ''SSD1306V''))
   \<and> (32 \<le> length bs \<and> take 8 bs = map of_char ''SSD1306V''
        \<and> height (parseHeader bs) mod 8 = 0
      \<longrightarrow> fst (readHeaderFromFile (Some \<lparr>content = bs, pos = p\<rparr>)) = Some (parseHeader bs)
        \<and> fst (readHeader (t\<lparr>f := Some \<lparr>content = bs, pos = 0\<rparr>\<rparr>))
        \<and> width (parseHeader bs) = le16 [bs ! 8, bs ! 9])"
proof (intro conjI impI)
  show "(strncmp (magic (parseHeader bs)) SSD1306V1 8 = 0) = (take 8 bs = map of_char ''SSD1306V'')"
    by (rule parse_magic_ok)
next
  assume a: "32 \<le> length bs \<and> take 8 bs = map of_char ''SSD1306V''
      \<and> height (parseHeader bs) mod 8 = 0"
  then have ok: "strncmp (magic (parseHeader bs)) SSD1306V1 8 = 0"
    by (simp only: parse_magic_ok)
  show "fst (readHeaderFromFile (Some \<lparr>content = bs, pos = p\<rparr>)) = Some (parseHeader bs)"
    using a ok by (simp add: readHeaderFromFile_long)
  have f: "f (t\<lparr>f := Some \<lparr>content = bs, pos = 0\<rparr>\<rparr>) = Some \<lparr>content = bs, pos = 0\<rparr>"
    by simp
  have "\<not> (\<not> fst (readHeader (t\<lparr>f := Some \<lparr>content = bs, pos = 0\<rparr>\<rparr>)))"
    unfolding readHeader_fails_iff[OF f] using a by (simp add: magic8)
  then show "fst (readHeader (t\<lparr>f := Some \<lparr>content = bs, pos = 0\<rparr>\<rparr>))" by simp
  from a have len: "32 \<le> length bs" by simp
  have "take 2 (drop 8 bs) = [bs ! 8, bs ! 9]"
  proof -
    have "length (take 2 (drop 8 bs)) = 2" using len by simp
    moreover have "take 2 (drop 8 bs) ! 0 = bs ! 8" using len by simp
    moreover have "take 2 (drop 8 bs) ! 1 = bs ! 9" using len by simp
    ultimately show ?thesis
      by (cases "take 2 (drop 8 bs)"; cases "tl (take 2 (drop 8 bs))") auto
  qed
  then show "width (parseHeader bs) = le16 [bs ! 8, bs ! 9]"
    by (simp add: parseHeader_def)
qed

theorem magic_check_compares_8_bytes_witness:
  "32 \<le> length (tiny_file []) \<and> take 8 (tiny_file []) = map of_char ''SSD1306V''
   \<and> height (parseHeader (tiny_file [])) mod 8 = 0
   \<and> tiny_file [] ! 8 \<noteq> of_char CHR ''1''
   \<and> fst (readHeaderFromFile (Some \<lparr>content = tiny_file [], pos = 0\<rparr>)) = Some tiny_hdr
   \<and> fst (readHeader (boot_basic\<lparr>f := Some \<lparr>content = tiny_file [], pos = 0\<rparr>\<rparr>))
   \<and> width (parseHeader (tiny_file [])) = 8"
proof -
  have a: "32 \<le> length (tiny_file [])" by (simp add: length_tiny_file)
  have b: "take 8 (tiny_file []) = map of_char ''SSD1306V''"
    by (simp add: tiny_file_def headerBytes_tiny)
  have c: "height (parseHeader (tiny_file [])) mod 8 = 0"
    by (simp add: parse_tiny tiny_hdr_def)
  have d: "tiny_file [] ! 8 \<noteq> of_char CHR ''1''"
    by (simp add: tiny_file_def headerBytes_tiny)
  have e: "width (parseHeader (tiny_file [])) = 8" by (simp add: parse_tiny tiny_hdr_def)
  show ?thesis
    using magic_check_compares_8_bytes[of "tiny_file []" 0 boot_basic] a b c d e
    by (simp add: parse_tiny)
qed

section \<open>Runs of ticks\<close>

lemma loop_no_uploads: "loop [] junk now s = playback junk now s"
  by (simp add: loop_def)

lemma run_ticks_Cons:
  "run (ticks ((junk, now) # ts)) s =
     (fst (playback junk now s) @ fst (run (ticks ts) (snd (playback junk now s))),
      snd (run (ticks ts) (snd (playback junk now s))))"
  by (simp add: ticks_def loop_no_uploads case_prod_beta)

lemma run_ticks_Nil: "run (ticks []) s = ([], s)"
  by (simp add: ticks_def)

lemma run_ticks_keeps:
  "hdr (snd (run (ticks ts) s)) = hdr s \<and> frameSize (snd (run (ticks ts) s)) = frameSize s
   \<and> frameDelayMs (snd (run (ticks ts) s)) = frameDelayMs s
   \<and> hasHeader (snd (run (ticks ts) s)) = hasHeader s"
proof (induction ts arbitrary: s)
  case Nil
  show ?case by (simp add: run_ticks_Nil)
next
  case (Cons t ts)
  obtain junk now where t: "t = (junk, now)" by (cases t)
  show ?case
    unfolding t run_ticks_Cons snd_conv
    using Cons.IH[of "snd (playback junk now s)"] by (simp add: playback_keeps)
qed

lemma playback_reads:
  assumes "Read n k \<in> set (fst (playback junk now s))"
  shows "n = unat (frameSize s)"
proof -
  have nd: "Read n k \<notin> set (drawFrame h fbuf)" for h fbuf
    using drawFrame_only_draws[of "Read n k" h fbuf] by auto
  show ?thesis
    using assms
    by (auto simp: playback_def Let_def case_prod_beta nd split: if_splits)
qed

lemma run_ticks_reads:
  assumes "Read n k \<in> set (fst (run (ticks ts) s))"
  shows "n = unat (frameSize s)"
  using assms
proof (induction ts arbitrary: s)
  case Nil
  then show ?case by (simp add: run_ticks_Nil)
next
  case (Cons t ts)
  obtain junk now where t: "t = (junk, now)" by (cases t)
  from Cons.prems have "Read n k \<in> set (fst (playback junk now s))
      \<or> Read n k \<in> set (fst (run (ticks ts) (snd (playback junk now s))))"
    unfolding t run_ticks_Cons by simp
  then show ?case
  proof
    assume "Read n k \<in> set (fst (playback junk now s))"
    then show ?thesis by (rule playback_reads)
  next
    assume "Read n k \<in> set (fst (run (ticks ts) (snd (playback junk now s))))"
    from Cons.IH[OF this] show ?thesis by (simp add: playback_keeps)
  qed
qed

lemma open_geometry:
  assumes "fs s = Some bs"
  shows "geometry_ok (snd (openMovieFileAndReadHeader s))"
proof (cases "length bs < 32 \<or> take 8 bs \<noteq> take 8 SSD1306V1 \<or> height (parseHeader bs) mod 8 \<noteq> 0")
  case True
  show ?thesis
    unfolding open_legacy[OF assms True] by (simp add: geometry_ok_def)
next
  case False
  then have "32 \<le> length bs" "take 8 bs = take 8 SSD1306V1" "height (parseHeader bs) mod 8 = 0"
    by simp_all
  from open_header[OF assms this] show ?thesis by (simp add: geometry_ok_def)
qed

lemma geometry_unat:
  "geometry_ok s \<Longrightarrow> unat (frameSize s) = unat (width (hdr s)) * (unat (height (hdr s)) div 8)"
  by (simp only: geometry_ok_def unat_frame_mult)

section \<open>C7: the frame size\<close>

text \<open>
  C7. Opening a file that exists sets \<open>frameSize\<close> to \<open>width * (height / 8)\<close>, as
  natural numbers (the 32-bit product does not wrap), for the dimensions of an
  accepted header and for the legacy dimensions alike. The scheduler's ticks leave
  \<open>frameSize\<close> and the header unchanged, and every read they issue requests
  exactly \<open>frameSize\<close> bytes.
\<close>

theorem frameSize_derived_once:
  "unat (frameSize (snd (openMovieFileAndReadHeader (sb\<lparr>fs := Some bs\<rparr>)))) =
      unat (width (hdr (snd (openMovieFileAndReadHeader (sb\<lparr>fs := Some bs\<rparr>)))))
        * (unat (height (hdr (snd (openMovieFileAndReadHeader (sb\<lparr>fs := Some bs\<rparr>))))) div 8)
   \<and> frameSize (snd (run (ticks ts) s)) = frameSize s
   \<and> hdr (snd (run (ticks ts) s)) = hdr s
   \<and> (\<forall>e \<in> set (fst (run (ticks ts) s)). \<forall>n k. e = Read n k \<longrightarrow> n = unat (frameSize s))"
proof (intro conjI ballI allI impI)
  have "fs (sb\<lparr>fs := Some bs\<rparr>) = Some bs" by simp
  then have "geometry_ok (snd (openMovieFileAndReadHeader (sb\<lparr>fs := Some bs\<rparr>)))"
    by (rule open_geometry)
  then show "unat (frameSize (snd (openMovieFileAndReadHeader (sb\<lparr>fs := Some bs\<rparr>)))) =
      unat (width (hdr (snd (openMovieFileAndReadHeader (sb\<lparr>fs := Some bs\<rparr>)))))
        * (unat (height (hdr (snd (openMovieFileAndReadHeader (sb\<lparr>fs := Some bs\<rparr>))))) div 8)"
    by (rule geometry_unat)
next
  show "frameSize (snd (run (ticks ts) s)) = frameSize s" by (simp add: run_ticks_keeps)
next
  show "hdr (snd (run (ticks ts) s)) = hdr s" by (simp add: run_ticks_keeps)
next
  fix e n k
  assume "e \<in> set (fst (run (ticks ts) s))" "e = Read n k"
  then have "Read n k \<in> set (fst (run (ticks ts) s))" by simp
  then show "n = unat (frameSize s)" by (rule run_ticks_reads)
qed

theorem frameSize_derived_once_witness:
  "Read 8 8 \<in> set (fst (run (ticks [([], 67)]) (tiny_player [1, 2, 3, 4, 5, 6, 7, 8])))
   \<and> unat (frameSize (tiny_player [1, 2, 3, 4, 5, 6, 7, 8])) = 8
   \<and> frameSize (snd (run (ticks [([], 67)]) (tiny_player [1, 2, 3, 4, 5, 6, 7, 8]))) = 8
   \<and> unat (frameSize (snd (openMovieFileAndReadHeader
         ((boot None)\<lparr>fs := Some (tiny_file [1, 2, 3, 4, 5, 6, 7, 8])\<rparr>)))) = 8 * (8 div 8)"
proof -
  let ?xs = "[1, 2, 3, 4, 5, 6, 7, 8 :: byte]"
  have b: "(boot None)\<lparr>fs := Some (tiny_file ?xs)\<rparr> = boot (Some (tiny_file ?xs))"
    by (simp add: boot_def)
  have o: "snd (openMovieFileAndReadHeader ((boot None)\<lparr>fs := Some (tiny_file ?xs)\<rparr>))
      = tiny_player ?xs"
    unfolding b tiny_player_def ..
  have r: "Read 8 8 \<in> set (fst (run (ticks [([], 67)]) (tiny_player ?xs)))"
    unfolding run_ticks_Cons run_ticks_Nil by (simp add: playback_tiny)
  have n: "unat (frameSize (tiny_player ?xs)) = 8" by (simp add: tiny_player_eq)
  note inst = frameSize_derived_once[where sb = "boot None" and bs = "tiny_file ?xs"
      and ts = "[([], 67)]" and s = "tiny_player ?xs"]
  have "unat (frameSize (snd (openMovieFileAndReadHeader
         ((boot None)\<lparr>fs := Some (tiny_file ?xs)\<rparr>)))) = 8 * (8 div 8)"
    using inst unfolding o by (simp add: tiny_player_eq tiny_hdr_def)
  moreover have "frameSize (snd (run (ticks [([], 67)]) (tiny_player ?xs))) = 8"
    using inst by (simp add: tiny_player_eq)
  moreover have "8 = unat (frameSize (tiny_player ?xs))"
    using inst r by blast
  ultimately show ?thesis using r by simp
qed

section \<open>Frames of size zero\<close>

lemma tiles_written_append: "tiles_written (a @ b) = tiles_written a + tiles_written b"
  by (induction a rule: tiles_written.induct) simp_all

lemma tile_bytes_append: "tile_bytes (a @ b) = tile_bytes a @ tile_bytes b"
  by (induction a rule: tile_bytes.induct) simp_all

lemma empty_draws:
  "tiles_written (map (\<lambda>p. DrawTile a (g p) 0 []) ps) = 0"
  "tile_bytes (map (\<lambda>p. DrawTile a (g p) 0 []) ps) = []"
  by (induction ps) simp_all

lemma drawFrame_flat:
  assumes "height h = 0"
  shows "drawFrame h fbuf = []"
  unfolding drawFrame_eq using assms by simp

lemma drawFrame_narrow:
  assumes "width h = 0"
  shows "drawFrame h fbuf =
     map (\<lambda>page. DrawTile 0 (of_nat page) 0 []) [0 ..< unat (ucast (height h div 8) :: byte)]"
  unfolding drawFrame_eq using assms by simp

lemma drawFrame_nothing:
  assumes "height h = 0 \<or> width h = 0"
  shows "tiles_written (drawFrame h fbuf) = 0" and "tile_bytes (drawFrame h fbuf) = []"
    and "\<forall>e \<in> set (drawFrame h fbuf). \<exists>y. e = DrawTile 0 y 0 []"
  using assms drawFrame_flat[of h fbuf] drawFrame_narrow[of h fbuf]
  by (auto simp: empty_draws)

lemma playback_zero:
  assumes "f s = Some fl" "frameSize s = 0" "\<not> now - lastMs s < frameDelayMs s"
  shows "playback junk now s = (Read 0 0 # drawFrame (hdr s) [], s\<lparr>lastMs := now\<rparr>)"
proof -
  have c: "unat (frameSize s) < 2 ^ 31" using assms(2) by simp
  have d: "unat (frameSize s) \<le> length (content fl) - pos fl" using assms(2) by simp
  have "s\<lparr>lastMs := now, f := Some (fl\<lparr>pos := pos fl\<rparr>)\<rparr> = s\<lparr>lastMs := now\<rparr>"
    using assms(1) by simp
  then show ?thesis
    unfolding playback_whole[OF assms(1,3) c d] using assms(2) by simp
qed

lemma run_zero:
  assumes "f s \<noteq> None" "frameSize s = 0" "height (hdr s) = 0 \<or> width (hdr s) = 0"
  shows "tiles_written (fst (run (ticks ts) s)) = 0 \<and> tile_bytes (fst (run (ticks ts) s)) = []
     \<and> (\<forall>e \<in> set (fst (run (ticks ts) s)). e = Read 0 0 \<or> (\<exists>y. e = DrawTile 0 y 0 []))
     \<and> (height (hdr s) = 0 \<longrightarrow> (\<forall>e \<in> set (fst (run (ticks ts) s)). e = Read 0 0))"
  using assms
proof (induction ts arbitrary: s)
  case Nil
  show ?case by (simp add: run_ticks_Nil)
next
  case (Cons t ts)
  obtain junk now where t: "t = (junk, now)" by (cases t)
  let ?s' = "snd (playback junk now s)"
  have inv: "f ?s' \<noteq> None" "frameSize ?s' = 0" "height (hdr ?s') = 0 \<or> width (hdr ?s') = 0"
    using Cons.prems by (simp_all add: playback_keeps playback_stays_open)
  note IH = Cons.IH[OF inv]
  have h: "hdr ?s' = hdr s" by (simp add: playback_keeps)
  have step: "tiles_written (fst (playback junk now s)) = 0
      \<and> tile_bytes (fst (playback junk now s)) = []
      \<and> (\<forall>e \<in> set (fst (playback junk now s)). e = Read 0 0 \<or> (\<exists>y. e = DrawTile 0 y 0 []))
      \<and> (height (hdr s) = 0 \<longrightarrow> (\<forall>e \<in> set (fst (playback junk now s)). e = Read 0 0))"
  proof (cases "now - lastMs s < frameDelayMs s")
    case True
    then show ?thesis by (simp add: playback_early)
  next
    case False
    from Cons.prems(1) obtain fl where fl: "f s = Some fl" by auto
    show ?thesis
      unfolding playback_zero[OF fl Cons.prems(2) False]
      using drawFrame_nothing[OF Cons.prems(3), of "[]"] drawFrame_flat[of "hdr s" "[]"]
      by auto
  qed
  show ?case
    unfolding t run_ticks_Cons fst_conv
    using step IH unfolding h
    by (auto simp: tiles_written_append tile_bytes_append)
qed

lemma headerBytes_flat:
  "headerBytes flat_hdr = [0x53, 0x53, 0x44, 0x31, 0x33, 0x30, 0x36, 0x56, 128, 0, 0, 0,
     0x98, 0x3A, 0, 0, 1, 0, 0, 0, 0, 0, 0, 0, 0, 0, 0, 0, 0, 0, 0, 0]"
  by (simp add: headerBytes_def flat_hdr_def fit_def bytes16_def bytes32_def SSD_bytes
      replicate_11)

lemma headerBytes_narrow:
  "headerBytes narrow_hdr = [0x53, 0x53, 0x44, 0x31, 0x33, 0x30, 0x36, 0x56, 0, 0, 64, 0,
     0x98, 0x3A, 0, 0, 1, 0, 0, 0, 0, 0, 0, 0, 0, 0, 0, 0, 0, 0, 0, 0]"
  by (simp add: headerBytes_def narrow_hdr_def fit_def bytes16_def bytes32_def SSD_bytes
      replicate_11)

lemma parse_flat: "parseHeader (headerBytes flat_hdr) = flat_hdr"
  unfolding headerBytes_flat
  by (simp add: parseHeader_def le16_def le32_def flat_hdr_def SSD_bytes replicate_11)

lemma parse_narrow: "parseHeader (headerBytes narrow_hdr) = narrow_hdr"
  unfolding headerBytes_narrow
  by (simp add: parseHeader_def le16_def le32_def narrow_hdr_def SSD_bytes replicate_11)

section \<open>C10: headers with an empty picture\<close>

text \<open>
  C10. A file of at least 32 bytes with the magic and height 0, or with width 0
  and a height that is a multiple of 8, is accepted as a headered stream, not
  treated as legacy: \<open>hasHeader\<close> is set and \<open>frameSize\<close> is 0. From then on every
  tick whose delay has elapsed reads zero bytes, does not seek back, and goes on
  to the drawing loop, which writes no tile and hands no byte to the sink: with
  height 0 it makes no call at all, with width 0 its calls carry a tile count
  of 0.
\<close>

theorem zero_size_header_accepted:
  assumes "S = snd (openMovieFileAndReadHeader (sb\<lparr>fs := Some bs\<rparr>))"
    and "32 \<le> length bs" and "take 8 bs = take 8 SSD1306V1"
    and "height (parseHeader bs) = 0
       \<or> (width (parseHeader bs) = 0 \<and> height (parseHeader bs) mod 8 = 0)"
  shows "fst (readHeaderFromFile (open_r (Some bs))) = Some (parseHeader bs)
     \<and> hasHeader S \<and> frameSize S = 0 \<and> hdr S = parseHeader bs
     \<and> (\<not> now - lastMs S < frameDelayMs S
          \<longrightarrow> fst (playback junk now S) = Read 0 0 # drawFrame (parseHeader bs) []
            \<and> tiles_written (fst (playback junk now S)) = 0)
     \<and> tiles_written (fst (run (ticks ts) S)) = 0
     \<and> tile_bytes (fst (run (ticks ts) S)) = []
     \<and> (\<forall>e \<in> set (fst (run (ticks ts) S)). e = Read 0 0 \<or> (\<exists>y. e = DrawTile 0 y 0 []))
     \<and> (height (parseHeader bs) = 0 \<longrightarrow> (\<forall>e \<in> set (fst (run (ticks ts) S)). e = Read 0 0))"
proof -
  let ?h = "parseHeader bs"
  have ht: "height ?h mod 8 = 0" using assms(4) by auto
  have good: "\<not> (length bs < 32 \<or> take 8 bs \<noteq> take 8 SSD1306V1 \<or> height ?h mod 8 \<noteq> 0)"
    using assms(2,3) ht by simp
  have dec: "fst (readHeaderFromFile (open_r (Some bs))) \<noteq> None"
    unfolding open_r_def option.map readHeaderFromFile_fails_iff using good by simp
  have dec': "fst (readHeaderFromFile (open_r (Some bs))) = Some ?h"
    using assms(2) dec by (simp add: open_r_def readHeaderFromFile_long split: if_splits)
  have z: "(ucast (width ?h) :: 32 word) * ucast (height ?h div 8) = 0"
    using assms(4) by auto
  have fs: "fs (sb\<lparr>fs := Some bs\<rparr>) = Some bs" by simp
  have S: "S = sb\<lparr>fs := Some bs, f := Some \<lparr>content = bs, pos = 32\<rparr>, hdr := ?h,
      hasHeader := True, frameSize := 0, frameDelayMs := fpsMilliToMs (fps_milli ?h)\<rparr>"
    unfolding assms(1) open_header[OF fs assms(2,3) ht] z by simp
  have a: "f S = Some \<lparr>content = bs, pos = 32\<rparr>" and b: "frameSize S = 0"
    and c: "hdr S = ?h" and d: "hasHeader S"
    unfolding S by simp_all
  have inv: "f S \<noteq> None" "height (hdr S) = 0 \<or> width (hdr S) = 0"
    using a c assms(4) by auto
  note r = run_zero[OF inv(1) b inv(2), of ts]
  have tick: "fst (playback junk now S) = Read 0 0 # drawFrame ?h []
      \<and> tiles_written (fst (playback junk now S)) = 0"
    if "\<not> now - lastMs S < frameDelayMs S"
    unfolding playback_zero[OF a b that] c
    using drawFrame_nothing(1)[of ?h "[]"] inv(2) c by simp
  show ?thesis using dec' b c d tick r unfolding c by blast
qed

theorem zero_size_header_accepted_witness:
  "32 \<le> length (headerBytes flat_hdr) \<and> take 8 (headerBytes flat_hdr) = take 8 SSD1306V1
   \<and> height (parseHeader (headerBytes flat_hdr)) = 0
   \<and> hasHeader (snd (openMovieFileAndReadHeader ((boot None)\<lparr>fs := Some (headerBytes flat_hdr)\<rparr>)))
   \<and> frameSize (snd (openMovieFileAndReadHeader
         ((boot None)\<lparr>fs := Some (headerBytes flat_hdr)\<rparr>))) = 0
   \<and> fst (playback [] 100 (snd (openMovieFileAndReadHeader
         ((boot None)\<lparr>fs := Some (headerBytes flat_hdr)\<rparr>)))) = [Read 0 0]
   \<and> tiles_written (fst (run (ticks [([], 100), ([], 200)]) (snd (openMovieFileAndReadHeader
         ((boot None)\<lparr>fs := Some (headerBytes flat_hdr)\<rparr>))))) = 0
   \<and> 32 \<le> length (headerBytes narrow_hdr) \<and> take 8 (headerBytes narrow_hdr) = take 8 SSD1306V1
   \<and> width (parseHeader (headerBytes narrow_hdr)) = 0
   \<and> height (parseHeader (headerBytes narrow_hdr)) mod 8 = 0
   \<and> frameSize (snd (openMovieFileAndReadHeader
         ((boot None)\<lparr>fs := Some (headerBytes narrow_hdr)\<rparr>))) = 0
   \<and> tiles_written (fst (run (ticks [([], 100), ([], 200)]) (snd (openMovieFileAndReadHeader
         ((boot None)\<lparr>fs := Some (headerBytes narrow_hdr)\<rparr>))))) = 0"
proof -
  let ?F = "snd (openMovieFileAndReadHeader ((boot None)\<lparr>fs := Some (headerBytes flat_hdr)\<rparr>))"
  let ?N = "snd (openMovieFileAndReadHeader ((boot None)\<lparr>fs := Some (headerBytes narrow_hdr)\<rparr>))"
  have f1: "32 \<le> length (headerBytes flat_hdr)" by (simp add: headerBytes_flat)
  have f2: "take 8 (headerBytes flat_hdr) = take 8 SSD1306V1"
    by (simp add: headerBytes_flat SSD_bytes)
  have f3: "height (parseHeader (headerBytes flat_hdr)) = 0"
    unfolding parse_flat by (simp add: flat_hdr_def)
  have n1: "32 \<le> length (headerBytes narrow_hdr)" by (simp add: headerBytes_narrow)
  have n2: "take 8 (headerBytes narrow_hdr) = take 8 SSD1306V1"
    by (simp add: headerBytes_narrow SSD_bytes)
  have n3: "width (parseHeader (headerBytes narrow_hdr)) = 0"
    "height (parseHeader (headerBytes narrow_hdr)) mod 8 = 0"
    unfolding parse_narrow by (simp_all add: narrow_hdr_def)
  have f4: "height (parseHeader (headerBytes flat_hdr)) = 0
       \<or> (width (parseHeader (headerBytes flat_hdr)) = 0
          \<and> height (parseHeader (headerBytes flat_hdr)) mod 8 = 0)"
    using f3 by simp
  have n4: "height (parseHeader (headerBytes narrow_hdr)) = 0
       \<or> (width (parseHeader (headerBytes narrow_hdr)) = 0
          \<and> height (parseHeader (headerBytes narrow_hdr)) mod 8 = 0)"
    using n3 by simp
  note F = zero_size_header_accepted[OF refl f1 f2 f4, of "boot None" 100 "[]" "[([], 100), ([], 200)]"]
  note N = zero_size_header_accepted[OF refl n1 n2 n4, of "boot None" 100 "[]" "[([], 100), ([], 200)]"]
  have el: "\<not> (100 :: 32 word) - lastMs ?F < frameDelayMs ?F"
  proof -
    have "lastMs ?F = 0"
      using f1 f2 f3 by (simp add: open_header boot_def)
    moreover have "fps_milli (parseHeader (headerBytes flat_hdr)) = 15000"
      unfolding parse_flat by (simp add: flat_hdr_def)
    then have "frameDelayMs ?F = 67"
      using f1 f2 f3 by (simp add: open_header fpsMilliToMs_def)
    ultimately show ?thesis by simp
  qed
  have "fst (playback [] 100 ?F) = [Read 0 0]"
    using F el by (simp add: drawFrame_flat f3)
  then show ?thesis using F N f1 f2 f3 n1 n2 n3 by simp
qed

section \<open>C5: the start of an upload\<close>

lemma handleClient_append:
  "handleClient (us @ vs) s = handleClient vs (handleClient us s)"
  by (induction us arbitrary: s) auto

lemma upload_start:
  assumes "status u = UPLOAD_FILE_START"
  shows "handleUpload wr_ok u s =
     s\<lparr>f := None, fs := (if wr_ok then Some [] else None), uploadFile := wr_ok\<rparr>"
  using assms by (cases wr_ok) (simp_all add: handleUpload_def safeCloseFile_def Let_def)

lemma upload_keeps_closed:
  assumes "f s = None" "status u \<noteq> UPLOAD_FILE_END"
  shows "f (handleUpload wr_ok u s) = None"
  using assms
  by (cases "status u") (simp_all add: handleUpload_def safeCloseFile_def Let_def)

lemma handleClient_keeps_closed:
  assumes "f s = None" "list_all (\<lambda>(wr_ok, u). status u \<noteq> UPLOAD_FILE_END) us"
  shows "f (handleClient us s) = None"
  using assms
proof (induction us arbitrary: s)
  case Nil
  then show ?case by simp
next
  case (Cons a us)
  obtain wr_ok u where a: "a = (wr_ok, u)" by (cases a)
  from Cons.prems have "status u \<noteq> UPLOAD_FILE_END"
    and rest: "list_all (\<lambda>(wr_ok, u). status u \<noteq> UPLOAD_FILE_END) us"
    unfolding a by simp_all
  with Cons.prems(1) have "f (handleUpload wr_ok u s) = None"
    by (intro upload_keeps_closed)
  from Cons.IH[OF this rest] show ?case unfolding a by simp
qed

lemma run_closed:
  assumes "f s = None" "no_upload_end steps"
  shows "fst (run steps s) = [] \<and> f (snd (run steps s)) = None"
  using assms
proof (induction steps arbitrary: s)
  case Nil
  then show ?case by simp
next
  case (Cons a steps)
  obtain us junk now where a: "a = (us, junk, now)" by (cases a)
  from Cons.prems(2) have us: "list_all (\<lambda>(wr_ok, u). status u \<noteq> UPLOAD_FILE_END) us"
    and rest: "no_upload_end steps"
    unfolding a no_upload_end_def by simp_all
  have c: "f (handleClient us s) = None"
    using Cons.prems(1) us by (rule handleClient_keeps_closed)
  then have l: "loop us junk now s = ([], handleClient us s)"
    by (simp add: loop_def playback_closed)
  show ?case
    unfolding a using Cons.IH[OF c rest] by (simp add: l case_prod_beta)
qed

text \<open>
  C5. The handler's call for the start of an upload leaves the scheduler's handle
  closed and the movie file empty (or absent, when it cannot be created): no
  replacement byte has been written yet, and the state no longer depends on the
  old file. From that call on, the rest of the same \<open>loop\<close> call and every later
  \<open>loop\<close> call issue no read and no tile write and keep the handle closed, for as
  long as no upload ends.
\<close>

theorem upload_start_blanks_playback:
  assumes "status u = UPLOAD_FILE_START"
    and "list_all (\<lambda>(wr_ok, v). status v \<noteq> UPLOAD_FILE_END) later"
    and "no_upload_end steps"
  shows "f (handleUpload wr_ok u s) = None
     \<and> fs (handleUpload wr_ok u s) = (if wr_ok then Some [] else None)
     \<and> handleUpload wr_ok u (s\<lparr>f := old_f, fs := old_fs\<rparr>) = handleUpload wr_ok u s
     \<and> fst (run ((earlier @ (wr_ok, u) # later, junk, now) # steps) s) = []
     \<and> f (snd (run ((earlier @ (wr_ok, u) # later, junk, now) # steps) s)) = None"
proof -
  let ?s1 = "handleUpload wr_ok u (handleClient earlier s)"
  have st: "f ?s1 = None" by (simp add: upload_start[OF assms(1)])
  have hc: "handleClient (earlier @ (wr_ok, u) # later) s = handleClient later ?s1"
    by (simp add: handleClient_append)
  have c: "f (handleClient later ?s1) = None"
    using st assms(2) by (rule handleClient_keeps_closed)
  have l: "loop (earlier @ (wr_ok, u) # later) junk now s = ([], handleClient later ?s1)"
    unfolding loop_def hc using c by (simp add: playback_closed)
  have r: "fst (run steps (handleClient later ?s1)) = []
      \<and> f (snd (run steps (handleClient later ?s1))) = None"
    using c assms(3) by (rule run_closed)
  have "fst (run ((earlier @ (wr_ok, u) # later, junk, now) # steps) s) = []
     \<and> f (snd (run ((earlier @ (wr_ok, u) # later, junk, now) # steps) s)) = None"
    using r by (simp add: l case_prod_beta)
  then show ?thesis by (simp add: upload_start[OF assms(1)])
qed

theorem upload_start_blanks_playback_witness:
  "status \<lparr>status = UPLOAD_FILE_START, buf = [], currentSize = 0\<rparr> = UPLOAD_FILE_START
   \<and> f (tiny_player [1, 2, 3, 4, 5, 6, 7, 8]) \<noteq> None
   \<and> fst (run [([], [], 100)] (tiny_player [1, 2, 3, 4, 5, 6, 7, 8]))
       = [Read 8 8, DrawTile 0 0 1 [1, 2, 3, 4, 5, 6, 7, 8]]
   \<and> fst (run [([(True, \<lparr>status = UPLOAD_FILE_START, buf = [], currentSize = 0\<rparr>),
                   (True, \<lparr>status = UPLOAD_FILE_WRITE, buf = [9, 9], currentSize = 2\<rparr>)], [], 100),
                 ([(True, \<lparr>status = UPLOAD_FILE_WRITE, buf = [7], currentSize = 1\<rparr>)], [], 200),
                 ([], [], 300)]
          (tiny_player [1, 2, 3, 4, 5, 6, 7, 8])) = []
   \<and> f (handleUpload True \<lparr>status = UPLOAD_FILE_START, buf = [], currentSize = 0\<rparr>
          (tiny_player [1, 2, 3, 4, 5, 6, 7, 8])) = None
   \<and> fs (handleUpload True \<lparr>status = UPLOAD_FILE_START, buf = [], currentSize = 0\<rparr>
          (tiny_player [1, 2, 3, 4, 5, 6, 7, 8])) = Some []"
proof -
  let ?xs = "[1, 2, 3, 4, 5, 6, 7, 8 :: byte]"
  let ?start = "\<lparr>status = UPLOAD_FILE_START, buf = [], currentSize = 0\<rparr>"
  let ?w1 = "\<lparr>status = UPLOAD_FILE_WRITE, buf = [9, 9 :: byte], currentSize = 2\<rparr>"
  let ?w2 = "\<lparr>status = UPLOAD_FILE_WRITE, buf = [7 :: byte], currentSize = 1\<rparr>"
  have a: "status ?start = UPLOAD_FILE_START" by simp
  have b: "list_all (\<lambda>(wr_ok, v). status v \<noteq> UPLOAD_FILE_END) [(True, ?w1)]" by simp
  have c: "no_upload_end [([(True, ?w2)], [], 200), ([], [], 300)]"
    by (simp add: no_upload_end_def)
  have o: "f (tiny_player ?xs) \<noteq> None" by (simp add: tiny_player_eq)
  have p: "fst (run [([], [], 100)] (tiny_player ?xs)) = [Read 8 8, DrawTile 0 0 1 ?xs]"
    by (simp add: loop_no_uploads playback_tiny)
  note inst = upload_start_blanks_playback[OF a b c, where wr_ok = True
      and s = "tiny_player ?xs" and old_f = "f (tiny_player ?xs)"
      and old_fs = "fs (tiny_player ?xs)" and earlier = "[]" and junk = "[]" and now = 100]
  show ?thesis using inst o p by simp
qed

section \<open>Sessions that play alike\<close>

lemma drawFrame_cong:
  "width h = width h' \<Longrightarrow> height h = height h' \<Longrightarrow> drawFrame h fbuf = drawFrame h' fbuf"
  by (simp add: drawFrame_def)

lemma same_playbackD:
  assumes "same_playback s s'"
  obtains fl fl' where "f s = Some fl" "f s' = Some fl'" "pos fl = pos fl'" "32 \<le> pos fl"
    "length (content fl) = length (content fl')" "drop 32 (content fl) = drop 32 (content fl')"
  using assms unfolding same_playback_def
  by (cases "f s"; cases "f s'") auto

lemma drop_from_32:
  assumes "drop 32 xs = drop 32 ys" "32 \<le> p"
  shows "drop p xs = drop p ys"
proof -
  have "drop p xs = drop (p - 32) (drop 32 xs)" using assms(2) by simp
  also have "\<dots> = drop (p - 32) (drop 32 ys)" by (simp only: assms(1))
  also have "\<dots> = drop p ys" using assms(2) by simp
  finally show ?thesis .
qed

lemma playback_same:
  assumes "same_playback s s'"
  shows "fst (playback junk now s) = fst (playback junk now s')
     \<and> same_playback (snd (playback junk now s)) (snd (playback junk now s'))"
proof -
  from assms obtain fl fl' where fl: "f s = Some fl" "f s' = Some fl'"
    and p: "pos fl' = pos fl" "32 \<le> pos fl"
    and len: "length (content fl') = length (content fl)"
    and d32: "drop 32 (content fl) = drop 32 (content fl')"
    by (auto elim: same_playbackD)
  from assms have eq: "hasHeader s" "hasHeader s'" "frameSize s' = frameSize s"
    "frameDelayMs s' = frameDelayMs s" "lastMs s' = lastMs s"
    and wh: "width (hdr s') = width (hdr s)" "height (hdr s') = height (hdr s)"
    unfolding same_playback_def by simp_all
  have dp: "drop (pos fl) (content fl') = drop (pos fl) (content fl)"
    using drop_from_32[OF d32 p(2)] by simp
  have d32': "drop 32 (content fl') = drop 32 (content fl)" using d32 by simp
  have df: "drawFrame (hdr s') fbuf = drawFrame (hdr s) fbuf" for fbuf
    using wh by (intro drawFrame_cong) simp_all
  have p32: "32 \<le> pos fl + k" for k using p(2) by simp
  show ?thesis
    using wh[symmetric]
    by (simp add: p32 playback_def File_read_Some File_seek_def fseek_def Let_def fl p len eq dp
        d32' df same_playback_def sizeof_MovieHeader_def)
qed

lemma loop_basic_same:
  assumes "same_playback s s'"
  shows "fst (loop_basic junk now s) = fst (loop_basic junk now s')
     \<and> same_playback (snd (loop_basic junk now s)) (snd (loop_basic junk now s'))"
proof -
  from assms obtain fl fl' where fl: "f s = Some fl" "f s' = Some fl'"
    and p: "pos fl' = pos fl" "32 \<le> pos fl"
    and len: "length (content fl') = length (content fl)"
    and d32: "drop 32 (content fl) = drop 32 (content fl')"
    by (auto elim: same_playbackD)
  from assms have eq: "hasHeader s" "hasHeader s'" "frameSize s' = frameSize s"
    "frameDelayMs s' = frameDelayMs s" "lastMs s' = lastMs s"
    and wh: "width (hdr s') = width (hdr s)" "height (hdr s') = height (hdr s)"
    unfolding same_playback_def by simp_all
  have dp: "drop (pos fl) (content fl') = drop (pos fl) (content fl)"
    using drop_from_32[OF d32 p(2)] by simp
  have d32': "drop 32 (content fl') = drop 32 (content fl)" using d32 by simp
  have df: "drawFrame (hdr s') fbuf = drawFrame (hdr s) fbuf" for fbuf
    using wh by (intro drawFrame_cong) simp_all
  have p32: "32 \<le> pos fl + k" for k using p(2) by simp
  show ?thesis
    using wh[symmetric]
    by (simp add: p32 loop_basic_def File_read_Some File_seek_def fseek_def Let_def fl p len eq dp
        d32' df same_playback_def sizeof_MovieHeader_def)
qed

lemma run_ticks_same:
  assumes "same_playback s s'"
  shows "fst (run (ticks ts) s) = fst (run (ticks ts) s')
     \<and> same_playback (snd (run (ticks ts) s)) (snd (run (ticks ts) s'))"
  using assms
proof (induction ts arbitrary: s s')
  case Nil
  then show ?case by (simp add: run_ticks_Nil)
next
  case (Cons t ts)
  obtain junk now where t: "t = (junk, now)" by (cases t)
  note step = playback_same[OF Cons.prems, of junk now]
  from Cons.IH[OF step[THEN conjunct2]] step[THEN conjunct1]
  show ?case unfolding t run_ticks_Cons by simp
qed

lemma run_basic_same:
  assumes "same_playback s s'"
  shows "fst (run_basic ts s) = fst (run_basic ts s')
     \<and> same_playback (snd (run_basic ts s)) (snd (run_basic ts s'))"
  using assms
proof (induction ts arbitrary: s s')
  case Nil
  then show ?case by simp
next
  case (Cons t ts)
  obtain junk now where t: "t = (junk, now)" by (cases t)
  note step = loop_basic_same[OF Cons.prems, of junk now]
  from Cons.IH[OF step[THEN conjunct2]] step[THEN conjunct1]
  show ?case unfolding t by (simp add: case_prod_beta)
qed

lemma parse_prefix:
  assumes "take 16 b' = take 16 b"
  shows "magic (parseHeader b') = magic (parseHeader b)"
    and "width (parseHeader b') = width (parseHeader b)"
    and "height (parseHeader b') = height (parseHeader b)"
    and "fps_milli (parseHeader b') = fps_milli (parseHeader b)"
proof -
  have m: "take 8 x = take 8 (take 16 x)" for x :: "byte list" by simp
  have w: "take 2 (drop 8 x) = take 2 (drop 8 (take 16 x))" for x :: "byte list"
    by (simp add: drop_take)
  have h: "take 2 (drop 10 x) = take 2 (drop 10 (take 16 x))" for x :: "byte list"
    by (simp add: drop_take)
  have r: "take 4 (drop 12 x) = take 4 (drop 12 (take 16 x))" for x :: "byte list"
    by (simp add: drop_take)
  show "magic (parseHeader b') = magic (parseHeader b)"
    using m[of b] m[of b'] assms by (simp add: parseHeader_def)
  show "width (parseHeader b') = width (parseHeader b)"
    using w[of b] w[of b'] assms by (simp add: parseHeader_def)
  show "height (parseHeader b') = height (parseHeader b)"
    using h[of b] h[of b'] assms by (simp add: parseHeader_def)
  show "fps_milli (parseHeader b') = fps_milli (parseHeader b)"
    using r[of b] r[of b'] assms by (simp add: parseHeader_def)
qed

lemma same_tail:
  assumes "32 \<le> length bs" "drop 20 bs' = drop 20 bs"
  shows "length bs' = length bs" and "drop 32 bs' = drop 32 bs"
proof -
  have "length (drop 20 bs') = length (drop 20 bs)" by (simp only: assms(2))
  then show "length bs' = length bs" using assms(1) by simp
  have "drop 12 (drop 20 bs') = drop 12 (drop 20 bs)" by (simp only: assms(2))
  then show "drop 32 bs' = drop 32 bs" by simp
qed

lemma open_same:
  assumes "32 \<le> length bs" "take 8 bs = take 8 SSD1306V1" "height (parseHeader bs) mod 8 = 0"
    and "take 16 bs' = take 16 bs" "drop 20 bs' = drop 20 bs"
  shows "same_playback (snd (openMovieFileAndReadHeader (sb\<lparr>fs := Some bs'\<rparr>)))
     (snd (openMovieFileAndReadHeader (sb\<lparr>fs := Some bs\<rparr>)))"
proof -
  note pp = parse_prefix[OF assms(4)]
  note tl = same_tail[OF assms(1,5)]
  have len': "32 \<le> length bs'" using tl(1) assms(1) by simp
  have mg': "take 8 bs' = take 8 SSD1306V1"
  proof -
    have "take 8 bs' = take 8 (take 16 bs')" by simp
    also have "\<dots> = take 8 (take 16 bs)" by (simp only: assms(4))
    also have "\<dots> = take 8 SSD1306V1" using assms(2) by simp
    finally show ?thesis .
  qed
  have ht': "height (parseHeader bs') mod 8 = 0" using assms(3) pp(3) by simp
  have fs: "fs (sb\<lparr>fs := Some bs\<rparr>) = Some bs" "fs (sb\<lparr>fs := Some bs'\<rparr>) = Some bs'"
    by simp_all
  show ?thesis
    unfolding open_header[OF fs(1) assms(1,2,3)] open_header[OF fs(2) len' mg' ht']
    by (simp add: same_playback_def pp tl)
qed

lemma setup_basic_header:
  assumes "32 \<le> length bs" "take 8 bs = take 8 SSD1306V1" "height (parseHeader bs) mod 8 = 0"
  shows "setup_basic True (Some bs) =
     Some (boot_basic\<lparr>f := Some \<lparr>content = bs, pos = 32\<rparr>,
        hdr := (parseHeader bs)\<lparr>fps_milli :=
                 (if fps_milli (parseHeader bs) = 0 then 15000 else fps_milli (parseHeader bs))\<rparr>,
        frameSize := ucast (width (parseHeader bs)) * ucast (height (parseHeader bs) div 8),
        frameDelayMs :=
          (if 1000000 div (if fps_milli (parseHeader bs) = 0 then 15000
                            else fps_milli (parseHeader bs)) = 0 then 1
           else 1000000 div (if fps_milli (parseHeader bs) = 0 then 15000
                              else fps_milli (parseHeader bs))),
        hasHeader := True\<rparr>)"
proof -
  let ?fl = "\<lparr>content = bs, pos = 0\<rparr>"
  have f0: "f (boot_basic\<lparr>f := Some ?fl\<rparr>) = Some ?fl" by simp
  have long: "32 \<le> length (content ?fl) - pos ?fl" using assms(1) by simp
  have m: "take 8 (magic (parseHeader bs)) = take 8 bs" by (simp add: parseHeader_def)
  have ok: "strncmp (magic (parseHeader bs)) SSD1306V1 8 = 0"
    using assms(2) by (simp add: magic_check_iff m)
  show ?thesis
    unfolding setup_basic_def
    using ok assms(3)
    by (simp add: open_r_def readHeader_long[OF f0 long] Let_def)
qed

lemma setup_basic_same:
  assumes "32 \<le> length bs" "take 8 bs = take 8 SSD1306V1" "height (parseHeader bs) mod 8 = 0"
    and "take 16 bs' = take 16 bs" "drop 20 bs' = drop 20 bs"
  shows "\<exists>t t'. setup_basic True (Some bs) = Some t \<and> setup_basic True (Some bs') = Some t'
     \<and> same_playback t' t"
proof -
  note pp = parse_prefix[OF assms(4)]
  note tl = same_tail[OF assms(1,5)]
  have len': "32 \<le> length bs'" using tl(1) assms(1) by simp
  have mg': "take 8 bs' = take 8 SSD1306V1"
  proof -
    have "take 8 bs' = take 8 (take 16 bs')" by simp
    also have "\<dots> = take 8 (take 16 bs)" by (simp only: assms(4))
    also have "\<dots> = take 8 SSD1306V1" using assms(2) by simp
    finally show ?thesis .
  qed
  have ht': "height (parseHeader bs') mod 8 = 0" using assms(3) pp(3) by simp
  show ?thesis
    unfolding setup_basic_header[OF assms(1,2,3)] setup_basic_header[OF len' mg' ht']
    by (simp add: same_playback_def pp tl boot_basic_def)
qed

lemma set_frame_count_outside:
  assumes "20 \<le> length bs"
  shows "take 16 (set_frame_count fc bs) = take 16 bs"
    and "drop 20 (set_frame_count fc bs) = drop 20 bs"
  using assms by (simp_all add: set_frame_count_def bytes32_def)

section \<open>C8: the declared frame count\<close>

text \<open>
  C8. Let \<open>bs\<close> be a stream with a valid header and \<open>bs'\<close> a stream that agrees
  with it on every byte outside the \<open>frame_count\<close> field (bytes 16 to 19). Started
  from the same state and given the same ticks, the two streams produce the same
  trace of reads, seeks and tile writes, tick after tick (the statement holds for
  every list of ticks, hence for every prefix), with the same frame size, frame
  delay and last-tick time; in the uploader sketch and in the plain player.
\<close>

theorem frame_count_not_enforced:
  assumes "32 \<le> length bs" and "take 8 bs = take 8 SSD1306V1"
    and "height (parseHeader bs) mod 8 = 0"
    and "take 16 bs' = take 16 bs" and "drop 20 bs' = drop 20 bs"
  shows "fst (run (ticks ts) (snd (openMovieFileAndReadHeader (sb\<lparr>fs := Some bs'\<rparr>))))
       = fst (run (ticks ts) (snd (openMovieFileAndReadHeader (sb\<lparr>fs := Some bs\<rparr>))))
     \<and> lastMs (snd (run (ticks ts) (snd (openMovieFileAndReadHeader (sb\<lparr>fs := Some bs'\<rparr>)))))
       = lastMs (snd (run (ticks ts) (snd (openMovieFileAndReadHeader (sb\<lparr>fs := Some bs\<rparr>)))))
     \<and> frameDelayMs (snd (openMovieFileAndReadHeader (sb\<lparr>fs := Some bs'\<rparr>)))
       = frameDelayMs (snd (openMovieFileAndReadHeader (sb\<lparr>fs := Some bs\<rparr>)))
     \<and> frameSize (snd (openMovieFileAndReadHeader (sb\<lparr>fs := Some bs'\<rparr>)))
       = frameSize (snd (openMovieFileAndReadHeader (sb\<lparr>fs := Some bs\<rparr>)))
     \<and> (\<exists>t t'. setup_basic True (Some bs) = Some t \<and> setup_basic True (Some bs') = Some t'
          \<and> fst (run_basic tb t') = fst (run_basic tb t)
          \<and> lastMs (snd (run_basic tb t')) = lastMs (snd (run_basic tb t))
          \<and> frameDelayMs t' = frameDelayMs t \<and> frameSize t' = frameSize t)"
proof -
  let ?s' = "snd (openMovieFileAndReadHeader (sb\<lparr>fs := Some bs'\<rparr>))"
  let ?s = "snd (openMovieFileAndReadHeader (sb\<lparr>fs := Some bs\<rparr>))"
  have init: "same_playback ?s' ?s" using assms by (rule open_same)
  note r = run_ticks_same[OF init, of ts]
  have a: "fst (run (ticks ts) ?s') = fst (run (ticks ts) ?s)" using r by simp
  have b: "lastMs (snd (run (ticks ts) ?s')) = lastMs (snd (run (ticks ts) ?s))"
    using r by (simp add: same_playback_def)
  have c: "frameDelayMs ?s' = frameDelayMs ?s" "frameSize ?s' = frameSize ?s"
    using init by (simp_all add: same_playback_def)
  obtain t t' where t: "setup_basic True (Some bs) = Some t"
    "setup_basic True (Some bs') = Some t'" "same_playback t' t"
    using setup_basic_same[OF assms] by blast
  note rb = run_basic_same[OF t(3), of tb]
  have d: "fst (run_basic tb t') = fst (run_basic tb t)" using rb by simp
  have e: "lastMs (snd (run_basic tb t')) = lastMs (snd (run_basic tb t))"
    using rb by (simp add: same_playback_def)
  have g: "frameDelayMs t' = frameDelayMs t" "frameSize t' = frameSize t"
    using t(3) by (simp_all add: same_playback_def)
  show ?thesis using a b c t(1,2) d e g by blast
qed

theorem frame_count_not_enforced_witness:
  "32 \<le> length (tiny_file [1, 2, 3, 4, 5, 6, 7, 8])
   \<and> take 8 (tiny_file [1, 2, 3, 4, 5, 6, 7, 8]) = take 8 SSD1306V1
   \<and> height (parseHeader (tiny_file [1, 2, 3, 4, 5, 6, 7, 8])) mod 8 = 0
   \<and> take 16 (set_frame_count 99 (tiny_file [1, 2, 3, 4, 5, 6, 7, 8]))
       = take 16 (tiny_file [1, 2, 3, 4, 5, 6, 7, 8])
   \<and> drop 20 (set_frame_count 99 (tiny_file [1, 2, 3, 4, 5, 6, 7, 8]))
       = drop 20 (tiny_file [1, 2, 3, 4, 5, 6, 7, 8])
   \<and> frame_count (parseHeader (tiny_file [1, 2, 3, 4, 5, 6, 7, 8])) = 1
   \<and> frame_count (parseHeader (set_frame_count 99 (tiny_file [1, 2, 3, 4, 5, 6, 7, 8]))) = 99
   \<and> fst (run (ticks [([], 67)]) (snd (openMovieFileAndReadHeader
         ((boot None)\<lparr>fs := Some (set_frame_count 99 (tiny_file [1, 2, 3, 4, 5, 6, 7, 8]))\<rparr>))))
       = [Read 8 8, DrawTile 0 0 1 [1, 2, 3, 4, 5, 6, 7, 8]]"
proof -
  let ?xs = "[1, 2, 3, 4, 5, 6, 7, 8 :: byte]"
  have len: "32 \<le> length (tiny_file ?xs)" by (simp add: length_tiny_file)
  have mg: "take 8 (tiny_file ?xs) = take 8 SSD1306V1"
    by (simp add: tiny_file_def headerBytes_tiny SSD_bytes)
  have ht: "height (parseHeader (tiny_file ?xs)) mod 8 = 0"
    unfolding parse_tiny by (simp add: tiny_hdr_def)
  have len20: "20 \<le> length (tiny_file ?xs)" using len by simp
  note o = set_frame_count_outside[OF len20, of 99]
  have fc: "frame_count (parseHeader (tiny_file ?xs)) = 1"
    unfolding parse_tiny by (simp add: tiny_hdr_def)
  have fc': "frame_count (parseHeader (set_frame_count 99 (tiny_file ?xs))) = 99"
    by (simp add: set_frame_count_def tiny_file_def headerBytes_tiny bytes32_def
        parseHeader_def le32_def)
  have b: "(boot None)\<lparr>fs := Some (tiny_file ?xs)\<rparr> = boot (Some (tiny_file ?xs))"
    by (simp add: boot_def)
  have base: "fst (run (ticks [([], 67)]) (snd (openMovieFileAndReadHeader
         ((boot None)\<lparr>fs := Some (tiny_file ?xs)\<rparr>))))
       = [Read 8 8, DrawTile 0 0 1 ?xs]"
    unfolding b tiny_player_def[symmetric] run_ticks_Cons run_ticks_Nil
    by (simp add: playback_tiny)
  note inst = frame_count_not_enforced[OF len mg ht o, where sb = "boot None"
      and ts = "[([], 67)]" and tb = "[]"]
  have "fst (run (ticks [([], 67)]) (snd (openMovieFileAndReadHeader
         ((boot None)\<lparr>fs := Some (set_frame_count 99 (tiny_file ?xs))\<rparr>))))
       = [Read 8 8, DrawTile 0 0 1 ?xs]"
    using inst base by simp
  then show ?thesis using len mg ht o fc fc' by simp
qed

end
